theory Spec2Isabelle
  imports Main "HOL-Library.Word"
begin

section \<open>Data model of the rollup checkpointer\<close>

text \<open>
  The embedding follows the Go package \<^verbatim>\<open>checkpointing\<close> (\<^verbatim>\<open>RollupCheckpointerImpl\<close>).
  Byte slices are character lists; a \<^verbatim>\<open>nil\<close> slice is \<open>None\<close>.
\<close>

type_synonym bytes = string

type_synonym hash = "256 word"

text \<open>
  Modelled from the spec: \<^verbatim>\<open>common.BlockId\<close> and its buffer form
  \<^verbatim>\<open>common.BlockIdBuf\<close> are declared outside the checkpointing package. The spec gives a
  block id as a height (a nonnegative integer) and a 32-byte header hash, and the buffer
  form carries the same two fields, so \<^verbatim>\<open>MarshalToBuf\<close> and \<^verbatim>\<open>Unmarshal\<close> on a
  non-nil buffer are the identity. A \<^verbatim>\<open>*BlockIdBuf\<close> field of a decoded message may be
  nil: such fields are options, and \<^verbatim>\<open>Unmarshal\<close> on nil dereferences nil and panics.
\<close>

record BlockId =
  Height :: nat
  HeaderHash :: hash

type_synonym BlockIdBuf = BlockId

datatype abort = Panic | Fatal

type_synonym 'a result = "abort + 'a"

definition MarshalToBuf :: "BlockId \<Rightarrow> BlockIdBuf" where
  "MarshalToBuf blockId = blockId"

definition UnmarshalBuf :: "BlockIdBuf \<Rightarrow> BlockId" where
  "UnmarshalBuf buf = buf"

definition Unmarshal :: "BlockIdBuf option \<Rightarrow> BlockId result" where
  "Unmarshal p = (case p of None \<Rightarrow> Inl Panic | Some buf \<Rightarrow> Inr (UnmarshalBuf buf))"

text \<open>
  Modelled from the spec: the message types \<^verbatim>\<open>CheckpointMetadata\<close>, \<^verbatim>\<open>CheckpointLinks\<close>,
  \<^verbatim>\<open>CheckpointManifest\<close> and \<^verbatim>\<open>BlockIdBufList\<close> are generated from a protobuf file that is
  not among the sources; their fields are those of the spec's record wire format. A hash
  buffer is identified with the hash it carries.
\<close>

record CheckpointMetadata =
  FormatVersion :: nat
  Oldest :: "BlockIdBuf option"
  Newest :: "BlockIdBuf option"

record CheckpointLinks =
  Prev :: "BlockIdBuf option"
  Next :: "BlockIdBuf option"

record CheckpointManifest =
  Values :: "hash list"
  Machines :: "hash list"

type_synonym BlockIdBufList = "BlockIdBuf list"

definition emptyMetadata :: CheckpointMetadata where
  "emptyMetadata = \<lparr>FormatVersion = 0, Oldest = None, Newest = None\<rparr>"

definition emptyLinks :: CheckpointLinks where
  "emptyLinks = \<lparr>Prev = None, Next = None\<rparr>"

definition emptyManifest :: CheckpointManifest where
  "emptyManifest = \<lparr>Values = [], Machines = []\<rparr>"

text \<open>
  \<^verbatim>\<open>proto.Marshal\<close> and \<^verbatim>\<open>proto.Unmarshal\<close> belong to the protobuf library, and the message
  codecs are generated code outside the package: the codec is a parameter of every
  operation. Encoding is total (the error branch of \<^verbatim>\<open>proto.Marshal\<close> is never taken);
  decoding is partial, \<open>None\<close> being a decode error.
\<close>

record proto =
  Marshal_BlockIdBuf :: "BlockIdBuf \<Rightarrow> bytes"
  Marshal_Metadata :: "CheckpointMetadata \<Rightarrow> bytes"
  Unmarshal_Metadata :: "bytes \<Rightarrow> CheckpointMetadata option"
  Marshal_Links :: "CheckpointLinks \<Rightarrow> bytes"
  Unmarshal_Links :: "bytes \<Rightarrow> CheckpointLinks option"
  Marshal_Manifest :: "CheckpointManifest \<Rightarrow> bytes"
  Unmarshal_Manifest :: "bytes \<Rightarrow> CheckpointManifest option"
  Marshal_List :: "BlockIdBufList \<Rightarrow> bytes"
  Unmarshal_List :: "bytes \<Rightarrow> BlockIdBufList option"

text \<open>
  What the operations rely on from protobuf: decoding inverts encoding, the empty input
  decodes to the message with no field set, and a block id determines its encoding.
\<close>

definition lawful :: "proto \<Rightarrow> bool" where
  "lawful p \<longleftrightarrow>
     inj (Marshal_BlockIdBuf p) \<and>
     (\<forall>m. Unmarshal_Metadata p (Marshal_Metadata p m) = Some m) \<and>
     (\<forall>l. Unmarshal_Links p (Marshal_Links p l) = Some l) \<and>
     (\<forall>m. Unmarshal_Manifest p (Marshal_Manifest p m) = Some m) \<and>
     (\<forall>q. Unmarshal_List p (Marshal_List p q) = Some q) \<and>
     Unmarshal_Metadata p [] = Some emptyMetadata \<and>
     Unmarshal_Links p [] = Some emptyLinks \<and>
     Unmarshal_Manifest p [] = Some emptyManifest \<and>
     Unmarshal_List p [] = Some []"

text \<open>\<^verbatim>\<open>len\<close> of a possibly nil slice, and the input \<^verbatim>\<open>proto.Unmarshal\<close> reads from it.\<close>

definition len :: "bytes option \<Rightarrow> nat" where
  "len b = (case b of None \<Rightarrow> 0 | Some x \<Rightarrow> length x)"

definition input :: "bytes option \<Rightarrow> bytes" where
  "input b = (case b of None \<Rightarrow> [] | Some x \<Rightarrow> x)"

section \<open>The storage adapter\<close>

text \<open>
  Modelled from the spec: \<^verbatim>\<open>machine.CheckpointStorage\<close> is implemented outside the
  package. Following the spec's storage adapter contract, it is a key-value map
  (\<^verbatim>\<open>get_bytes(key) \<rightarrow> bytes?\<close>, \<^verbatim>\<open>put_bytes\<close>, \<^verbatim>\<open>delete_bytes\<close>) with two
  reference-counted subobject stores (save inserts or increments, delete decrements).
  Writes succeed. A value or machine is identified with its hash. The store also records
  the sequence of write effects performed on it, oldest first.
\<close>

datatype effect =
    PutData bytes bytes
  | DelData bytes
  | PutValue hash
  | PutMachine hash
  | DelValue hash
  | DelMachine hash
  | Callback "bytes option"

record store =
  kv :: "bytes \<rightharpoonup> bytes"
  vals :: "hash \<Rightarrow> nat"
  machs :: "hash \<Rightarrow> nat"
  trace :: "effect list"

definition GetData :: "store \<Rightarrow> bytes \<Rightarrow> bytes option" where
  "GetData s key = kv s key"

definition SaveData :: "store \<Rightarrow> bytes \<Rightarrow> bytes \<Rightarrow> bool \<times> store" where
  "SaveData s key d = (True, s\<lparr>kv := (kv s)(key \<mapsto> d), trace := trace s @ [PutData key d]\<rparr>)"

definition DeleteData :: "store \<Rightarrow> bytes \<Rightarrow> store" where
  "DeleteData s key = s\<lparr>kv := (kv s)(key := None), trace := trace s @ [DelData key]\<rparr>"

definition SaveValue :: "store \<Rightarrow> hash \<Rightarrow> store" where
  "SaveValue s h = s\<lparr>vals := (vals s)(h := Suc (vals s h)), trace := trace s @ [PutValue h]\<rparr>"

definition Checkpoint :: "hash \<Rightarrow> store \<Rightarrow> bool \<times> store" where
  "Checkpoint h s =
     (True, s\<lparr>machs := (machs s)(h := Suc (machs s h)), trace := trace s @ [PutMachine h]\<rparr>)"

definition DeleteValue :: "store \<Rightarrow> hash \<Rightarrow> store" where
  "DeleteValue s h = s\<lparr>vals := (vals s)(h := vals s h - 1), trace := trace s @ [DelValue h]\<rparr>"

definition DeleteCheckpoint :: "store \<Rightarrow> hash \<Rightarrow> store" where
  "DeleteCheckpoint s h =
     s\<lparr>machs := (machs s)(h := machs s h - 1), trace := trace s @ [DelMachine h]\<rparr>"

section \<open>Keys and metadata access\<close>

definition getKeyForId :: "proto \<Rightarrow> bytes \<Rightarrow> BlockId \<Rightarrow> bytes" where
  "getKeyForId p prefix blockId = prefix @ Marshal_BlockIdBuf p (MarshalToBuf blockId)"

definition getManifestKey :: "proto \<Rightarrow> BlockId \<Rightarrow> bytes" where
  "getManifestKey p blockId = getKeyForId p ''manifest:'' blockId"

definition getContentsKey :: "proto \<Rightarrow> BlockId \<Rightarrow> bytes" where
  "getContentsKey p blockId = getKeyForId p ''contents:'' blockId"

definition getLinksKey :: "proto \<Rightarrow> BlockId \<Rightarrow> bytes" where
  "getLinksKey p blockId = getKeyForId p ''links:'' blockId"

definition SaveMetadata :: "store \<Rightarrow> bytes \<Rightarrow> store result" where
  "SaveMetadata s d =
     (case SaveData s ''metadata'' d of (ok, s') \<Rightarrow> if \<not> ok then Inl Fatal else Inr s')"

definition RestoreMetadata :: "store \<Rightarrow> bytes option" where
  "RestoreMetadata s = GetData s ''metadata''"

definition DeleteMetadata :: "store \<Rightarrow> store" where
  "DeleteMetadata s = DeleteData s ''metadata''"

section \<open>Saving a checkpoint\<close>

definition u_setBothPointers :: "proto \<Rightarrow> store \<Rightarrow> BlockId \<Rightarrow> BlockId \<Rightarrow> BlockId \<Rightarrow> store" where
  "u_setBothPointers p s blockId prev next =
     (let links = \<lparr>Prev = Some (MarshalToBuf prev), Next = Some (MarshalToBuf next)\<rparr>;
          linksBuf = Marshal_Links p links
      in snd (SaveData s (getLinksKey p blockId) linksBuf))"

definition u_updateNextPointer :: "proto \<Rightarrow> store \<Rightarrow> BlockId \<Rightarrow> BlockId \<Rightarrow> store result" where
  "u_updateNextPointer p s blockId next =
     (let key = getLinksKey p blockId;
          linksBuf = GetData s key
      in case Unmarshal_Links p (input linksBuf) of
           None \<Rightarrow> Inl Fatal
         | Some links \<Rightarrow>
             Inr (snd (SaveData s key (Marshal_Links p (links\<lparr>Next := Some (MarshalToBuf next)\<rparr>)))))"

text \<open>
  The \<^verbatim>\<open>values\<close> and \<^verbatim>\<open>machines\<close> maps are given as the lists of their entries in the
  order in which each \<^verbatim>\<open>range\<close> loop visits them.
\<close>

fun saveMachines :: "hash list \<Rightarrow> store \<Rightarrow> store result" where
  "saveMachines [] s = Inr s"
| "saveMachines (mach # rest) s =
     (case Checkpoint mach s of (savedMachine, s') \<Rightarrow>
        if \<not> savedMachine then Inl Fatal else saveMachines rest s')"

definition SaveCheckpoint ::
  "proto \<Rightarrow> store \<Rightarrow> BlockId \<Rightarrow> BlockId \<Rightarrow> bytes \<Rightarrow> CheckpointManifest \<Rightarrow> hash list \<Rightarrow> hash list
     \<Rightarrow> store result" where
  "SaveCheckpoint p s blockId prevBlockId contents manifest values machines =
     (let s1 = fold (\<lambda>val st. SaveValue st val) values s
      in case saveMachines machines s1 of
           Inl a \<Rightarrow> Inl a
         | Inr s2 \<Rightarrow>
             (let manifestBuf = Marshal_Manifest p manifest;
                  s3 = snd (SaveData s2 (getManifestKey p blockId) manifestBuf);
                  s4 = snd (SaveData s3 (getContentsKey p blockId) contents)
              in case u_updateNextPointer p s4 prevBlockId blockId of
                   Inl a \<Rightarrow> Inl a
                 | Inr s5 \<Rightarrow> Inr (u_setBothPointers p s5 blockId prevBlockId blockId)))"

record CheckpointContext =
  ctxManifest :: CheckpointManifest
  ctxValues :: "hash list"
  ctxMachines :: "hash list"

datatype error = ProtoError | ErrorString string | CallbackError

definition u_saveCheckpoint ::
  "proto \<Rightarrow> store \<Rightarrow> BlockId \<Rightarrow> bytes \<Rightarrow> CheckpointContext \<Rightarrow> (store \<times> error option) result" where
  "u_saveCheckpoint p s blockId contents checkpointCtx =
     (let rawMetadata = RestoreMetadata s
      in case
           (if rawMetadata = None \<or> len rawMetadata = 0 then
              (let idBuf = MarshalToBuf blockId;
                   metadataBuf = \<lparr>FormatVersion = 1, Oldest = Some idBuf, Newest = Some idBuf\<rparr>
               in case SaveMetadata s (Marshal_Metadata p metadataBuf) of
                    Inl a \<Rightarrow> Inl a
                  | Inr s' \<Rightarrow> Inr (Inr (metadataBuf, s')))
            else
              (case Unmarshal_Metadata p (input rawMetadata) of
                 None \<Rightarrow> Inr (Inl ProtoError)
               | Some metadataBuf \<Rightarrow> Inr (Inr (metadataBuf, s))))
         of
           Inl a \<Rightarrow> Inl a
         | Inr (Inl err) \<Rightarrow> Inr (s, Some err)
         | Inr (Inr (metadataBuf, s1)) \<Rightarrow>
             (case Unmarshal (Newest metadataBuf) of
                Inl a \<Rightarrow> Inl a
              | Inr newestInCp \<Rightarrow>
                  (case SaveCheckpoint p s1 blockId newestInCp contents
                          (ctxManifest checkpointCtx) (ctxValues checkpointCtx)
                          (ctxMachines checkpointCtx) of
                     Inl a \<Rightarrow> Inl a
                   | Inr s2 \<Rightarrow>
                       (let metadataBuf' = metadataBuf\<lparr>Newest := Some (MarshalToBuf blockId)\<rparr>
                        in case SaveMetadata s2 (Marshal_Metadata p metadataBuf') of
                             Inl a \<Rightarrow> Inl a
                           | Inr s3 \<Rightarrow> Inr (s3, None)))))"

section \<open>Restoring\<close>

definition HasCheckpointedState :: "store \<Rightarrow> bool" where
  "HasCheckpointedState s =
     (let metadataBytes = RestoreMetadata s in metadataBytes \<noteq> None \<and> len metadataBytes > 0)"

datatype RestoreContext = Rcp

definition RestoreCheckpoint ::
  "proto \<Rightarrow> store \<Rightarrow> BlockId \<Rightarrow> (bytes option \<times> RestoreContext option \<times> error option) result" where
  "RestoreCheckpoint p s blockId =
     (case RestoreMetadata s of
        None \<Rightarrow> Inr (None, None, None)
      | Some rawMetadata \<Rightarrow>
          (case Unmarshal_Metadata p rawMetadata of
             None \<Rightarrow> Inr (None, None, Some ProtoError)
           | Some metadataBuf \<Rightarrow>
               (case Oldest metadataBuf of
                  None \<Rightarrow> Inl Panic
                | Some oldest \<Rightarrow>
                    (case Newest metadataBuf of
                       None \<Rightarrow> Inl Panic
                     | Some newest \<Rightarrow>
                         (let oldestHeightInCp = Height oldest;
                              newestHeightInCp = Height newest;
                              blockHeight = Height blockId
                          in if blockHeight < oldestHeightInCp \<or> blockHeight > newestHeightInCp
                             then Inr (None, None, None)
                             else Inr (GetData s (getContentsKey p blockId), Some Rcp, None))))))"

section \<open>The delete queue\<close>

definition QueueCheckpointForDeletion :: "proto \<Rightarrow> store \<Rightarrow> BlockId \<Rightarrow> store" where
  "QueueCheckpointForDeletion p s blockId =
     (let queueBytes = GetData s ''deadqueue''
      in case Unmarshal_List p (input queueBytes) of
           None \<Rightarrow> s
         | Some queue \<Rightarrow>
             snd (SaveData s ''deadqueue'' (Marshal_List p (queue @ [MarshalToBuf blockId]))))"

definition DeleteOneOldCheckpoint :: "proto \<Rightarrow> store \<Rightarrow> BlockId \<Rightarrow> store" where
  "DeleteOneOldCheckpoint p s blockId =
     (case GetData s (getManifestKey p blockId) of
        None \<Rightarrow> s
      | Some manifestBytes \<Rightarrow>
          (case Unmarshal_Manifest p manifestBytes of
             None \<Rightarrow> s
           | Some manifestBuf \<Rightarrow>
               (let s1 = DeleteData s (getManifestKey p blockId);
                    s2 = fold (\<lambda>vbuf st. DeleteValue st vbuf) (Values manifestBuf) s1;
                    s3 = fold (\<lambda>mbuf st. DeleteCheckpoint st mbuf) (Machines manifestBuf) s2;
                    s4 = DeleteData s3 (getContentsKey p blockId)
                in DeleteData s4 (getLinksKey p blockId))))"

text \<open>
  The counted loop of \<^verbatim>\<open>deleteSomeOldCheckpoints\<close>; indexing the head of an empty queue
  panics.
\<close>

fun deleteLoop :: "proto \<Rightarrow> nat \<Rightarrow> store \<Rightarrow> BlockIdBufList \<Rightarrow> (store \<times> BlockIdBufList) result" where
  "deleteLoop p 0 s queue = Inr (s, queue)"
| "deleteLoop p (Suc n) s queue =
     (case queue of
        [] \<Rightarrow> Inl Panic
      | buf # rest \<Rightarrow> deleteLoop p n (DeleteOneOldCheckpoint p s (UnmarshalBuf buf)) rest)"

definition numToDelete :: "nat \<Rightarrow> nat" where
  "numToDelete numInQueue =
     (let n = numInQueue div 10 in if n = 0 \<and> numInQueue > 0 then 1 else n)"

definition deleteSomeOldCheckpoints :: "proto \<Rightarrow> store \<Rightarrow> store result" where
  "deleteSomeOldCheckpoints p s =
     (let queueBytes = GetData s ''deadqueue''
      in case Unmarshal_List p (input queueBytes) of
           None \<Rightarrow> Inr s
         | Some queue \<Rightarrow>
             (case deleteLoop p (numToDelete (length queue)) s queue of
                Inl a \<Rightarrow> Inl a
              | Inr (s', queue') \<Rightarrow> Inr (snd (SaveData s' ''deadqueue'' (Marshal_List p queue')))))"

section \<open>Reorg reconciliation and trimming\<close>

text \<open>
  The chain client: \<^verbatim>\<open>BlockIdForHeight\<close> gives the canonical block id at a height, or
  \<open>None\<close> when it returns an error.
\<close>

type_synonym ArbClient = "nat \<Rightarrow> BlockId option"

text \<open>
  The loop of \<^verbatim>\<open>QueueReorgedCheckpointsForDeletion\<close> together with the code after it; a
  \<^verbatim>\<open>return\<close> inside the loop ends the whole operation. The loop may run forever on a
  store whose links do not lead down to the oldest height: that is the value \<open>None\<close>.
\<close>

partial_function (option) reorgLoop ::
  "proto \<Rightarrow> ArbClient \<Rightarrow> BlockId \<Rightarrow> CheckpointMetadata \<Rightarrow> BlockId \<Rightarrow> store \<Rightarrow> store result option"
where
  "reorgLoop p client oldestId metadata newestId s =
     (if Height oldestId < Height newestId then
        (case client (Height newestId) of
           None \<Rightarrow> Some (Inr s)
         | Some onChainId \<Rightarrow>
             if HeaderHash onChainId = HeaderHash newestId then Some (Inr s)
             else
               (case Unmarshal_Links p (input (GetData s (getLinksKey p newestId))) of
                  None \<Rightarrow> Some (Inr s)
                | Some linksBuf \<Rightarrow>
                    (let metadata' = metadata\<lparr>Newest := Prev linksBuf\<rparr>
                     in case SaveMetadata s (Marshal_Metadata p metadata') of
                          Inl a \<Rightarrow> Some (Inl a)
                        | Inr s1 \<Rightarrow>
                            (let s2 = QueueCheckpointForDeletion p s1 newestId
                             in case Unmarshal (Newest metadata') of
                                  Inl a \<Rightarrow> Some (Inl a)
                                | Inr newestId' \<Rightarrow>
                                    reorgLoop p client oldestId metadata' newestId' s2))))
      else
        (case client (Height newestId) of
           None \<Rightarrow> Some (Inr s)
         | Some onChainId \<Rightarrow>
             if HeaderHash onChainId \<noteq> HeaderHash newestId
             then Some (Inr (QueueCheckpointForDeletion p (DeleteMetadata s) newestId))
             else Some (Inr s)))"

definition QueueReorgedCheckpointsForDeletion ::
  "proto \<Rightarrow> ArbClient \<Rightarrow> store \<Rightarrow> store result option" where
  "QueueReorgedCheckpointsForDeletion p client s =
     (let metadataBuf = RestoreMetadata s
      in if len metadataBuf = 0 then Some (Inr s)
         else
           (case Unmarshal_Metadata p (input metadataBuf) of
              None \<Rightarrow> Some (Inr s)
            | Some metadata \<Rightarrow>
                (case Unmarshal (Oldest metadata) of
                   Inl a \<Rightarrow> Some (Inl a)
                 | Inr oldestId \<Rightarrow>
                     (case Unmarshal (Newest metadata) of
                        Inl a \<Rightarrow> Some (Inl a)
                      | Inr newestId \<Rightarrow> reorgLoop p client oldestId metadata newestId s))))"

text \<open>
  \<^verbatim>\<open>QueueOldCheckpointsForDeletion\<close>: an unbounded \<^verbatim>\<open>for\<close> loop that re-reads the stored
  metadata in every round. The marshalled new metadata is computed and not written.
\<close>

partial_function (option) QueueOldCheckpointsForDeletion ::
  "proto \<Rightarrow> store \<Rightarrow> nat \<Rightarrow> store result option"
where
  "QueueOldCheckpointsForDeletion p s earliestRollbackPoint =
     (case Unmarshal_Metadata p (input (RestoreMetadata s)) of
        None \<Rightarrow> Some (Inr s)
      | Some metadataBuf \<Rightarrow>
          (case Unmarshal (Oldest metadataBuf) of
             Inl a \<Rightarrow> Some (Inl a)
           | Inr candidateId \<Rightarrow>
               (case Unmarshal_Links p (input (GetData s (getLinksKey p candidateId))) of
                  None \<Rightarrow> Some (Inr s)
                | Some links \<Rightarrow>
                    (case Next links of
                       None \<Rightarrow> Some (Inl Panic)
                     | Some nextBuf \<Rightarrow>
                         (let nextHeight = Height nextBuf
                          in if nextHeight \<ge> earliestRollbackPoint then Some (Inr s)
                             else
                               (let metadataBytes =
                                      Marshal_Metadata p (metadataBuf\<lparr>Oldest := Next links\<rparr>)
                                in QueueOldCheckpointsForDeletion p
                                     (QueueCheckpointForDeletion p s candidateId)
                                     earliestRollbackPoint))))))"

text \<open>
  \<^verbatim>\<open>RestoreLatestState\<close>; invoking the caller's \<^verbatim>\<open>unmarshalFunc\<close> is recorded as a
  \<open>Callback\<close> effect.
\<close>

definition RestoreLatestState ::
  "proto \<Rightarrow> ArbClient \<Rightarrow> (bytes option \<Rightarrow> RestoreContext option \<Rightarrow> error option) \<Rightarrow> store
     \<Rightarrow> (store \<times> error option) result option" where
  "RestoreLatestState p client unmarshalFunc s =
     (case QueueReorgedCheckpointsForDeletion p client s of
        None \<Rightarrow> None
      | Some (Inl a) \<Rightarrow> Some (Inl a)
      | Some (Inr s1) \<Rightarrow>
          Some
            (let metadataBytes = RestoreMetadata s1
             in if \<not> HasCheckpointedState s1
                then Inr (s1, Some (ErrorString ''no checkpoints in database''))
                else
                  (case Unmarshal_Metadata p (input metadataBytes) of
                     None \<Rightarrow> Inr (s1, Some ProtoError)
                   | Some metadata \<Rightarrow>
                       (case Unmarshal (Newest metadata) of
                          Inl a \<Rightarrow> Inl a
                        | Inr newestId \<Rightarrow>
                            (case RestoreCheckpoint p s1 newestId of
                               Inl a \<Rightarrow> Inl a
                             | Inr (cobBytes, resCtx, err) \<Rightarrow>
                                 (case err of
                                    Some e \<Rightarrow> Inr (s1, Some e)
                                  | None \<Rightarrow>
                                      Inr (s1\<lparr>trace := trace s1 @ [Callback cobBytes]\<rparr>,
                                           unmarshalFunc cobBytes resCtx)))))))"

section \<open>A concrete codec and concrete stores\<close>

text \<open>
  A small codec that satisfies \<open>lawful\<close>, used to run the operations on concrete stores:
  a number is written in unary and closed by \<open>0\<close>, an optional block id is tagged \<open>N\<close> or
  \<open>S\<close>, a repeated field is preceded by its count, and a message with no field set is the
  empty byte string.
\<close>

definition enc_nat :: "nat \<Rightarrow> bytes" where
  "enc_nat n = replicate n CHR ''1'' @ ''0''"

fun dec_nat :: "bytes \<Rightarrow> (nat \<times> bytes) option" where
  "dec_nat [] = None"
| "dec_nat (x # xs) =
     (if x = CHR ''0'' then Some (0, xs)
      else if x = CHR ''1'' then map_option (\<lambda>(n, r). (Suc n, r)) (dec_nat xs)
      else None)"

definition enc_hash :: "hash \<Rightarrow> bytes" where
  "enc_hash h = enc_nat (unat h)"

definition dec_hash :: "bytes \<Rightarrow> (hash \<times> bytes) option" where
  "dec_hash s = map_option (\<lambda>(n, r). (of_nat n, r)) (dec_nat s)"

definition enc_id :: "BlockIdBuf \<Rightarrow> bytes" where
  "enc_id b = enc_nat (Height b) @ enc_hash (HeaderHash b)"

definition dec_id :: "bytes \<Rightarrow> (BlockIdBuf \<times> bytes) option" where
  "dec_id s =
     (case dec_nat s of
        None \<Rightarrow> None
      | Some (h, r) \<Rightarrow>
          (case dec_hash r of
             None \<Rightarrow> None
           | Some (x, r') \<Rightarrow> Some (\<lparr>Height = h, HeaderHash = x\<rparr>, r')))"

definition enc_opt :: "BlockIdBuf option \<Rightarrow> bytes" where
  "enc_opt b = (case b of None \<Rightarrow> ''N'' | Some x \<Rightarrow> ''S'' @ enc_id x)"

fun dec_opt :: "bytes \<Rightarrow> (BlockIdBuf option \<times> bytes) option" where
  "dec_opt [] = None"
| "dec_opt (x # xs) =
     (if x = CHR ''N'' then Some (None, xs)
      else if x = CHR ''S'' then map_option (\<lambda>(b, r). (Some b, r)) (dec_id xs)
      else None)"

definition enc_many :: "('a \<Rightarrow> bytes) \<Rightarrow> 'a list \<Rightarrow> bytes" where
  "enc_many enc xs = enc_nat (length xs) @ concat (map enc xs)"

primrec dec_items ::
  "(bytes \<Rightarrow> ('a \<times> bytes) option) \<Rightarrow> nat \<Rightarrow> bytes \<Rightarrow> ('a list \<times> bytes) option" where
  "dec_items dec 0 s = Some ([], s)"
| "dec_items dec (Suc n) s =
     (case dec s of
        None \<Rightarrow> None
      | Some (x, r) \<Rightarrow> map_option (\<lambda>(xs, r'). (x # xs, r')) (dec_items dec n r))"

definition dec_many :: "(bytes \<Rightarrow> ('a \<times> bytes) option) \<Rightarrow> bytes \<Rightarrow> ('a list \<times> bytes) option" where
  "dec_many dec s = (case dec_nat s of None \<Rightarrow> None | Some (n, r) \<Rightarrow> dec_items dec n r)"

definition whole :: "('a \<times> bytes) option \<Rightarrow> 'a option" where
  "whole r = (case r of None \<Rightarrow> None | Some (x, rest) \<Rightarrow> if rest = [] then Some x else None)"

definition enc_metadata :: "CheckpointMetadata \<Rightarrow> bytes" where
  "enc_metadata m =
     (if m = emptyMetadata then []
      else enc_nat (FormatVersion m) @ enc_opt (Oldest m) @ enc_opt (Newest m))"

definition dec_metadata :: "bytes \<Rightarrow> CheckpointMetadata option" where
  "dec_metadata s =
     (if s = [] then Some emptyMetadata
      else case dec_nat s of
             None \<Rightarrow> None
           | Some (v, r) \<Rightarrow>
               (case dec_opt r of
                  None \<Rightarrow> None
                | Some (a, r') \<Rightarrow>
                    whole (map_option (\<lambda>(b, r''). (\<lparr>FormatVersion = v, Oldest = a, Newest = b\<rparr>, r''))
                             (dec_opt r'))))"

definition enc_links :: "CheckpointLinks \<Rightarrow> bytes" where
  "enc_links l = (if l = emptyLinks then [] else enc_opt (Prev l) @ enc_opt (Next l))"

definition dec_links :: "bytes \<Rightarrow> CheckpointLinks option" where
  "dec_links s =
     (if s = [] then Some emptyLinks
      else case dec_opt s of
             None \<Rightarrow> None
           | Some (a, r) \<Rightarrow>
               whole (map_option (\<lambda>(b, r'). (\<lparr>Prev = a, Next = b\<rparr>, r')) (dec_opt r)))"

definition enc_manifest :: "CheckpointManifest \<Rightarrow> bytes" where
  "enc_manifest m =
     (if m = emptyManifest then []
      else enc_many enc_hash (Values m) @ enc_many enc_hash (Machines m))"

definition dec_manifest :: "bytes \<Rightarrow> CheckpointManifest option" where
  "dec_manifest s =
     (if s = [] then Some emptyManifest
      else case dec_many dec_hash s of
             None \<Rightarrow> None
           | Some (vs, r) \<Rightarrow>
               whole (map_option (\<lambda>(ms, r'). (\<lparr>Values = vs, Machines = ms\<rparr>, r'))
                        (dec_many dec_hash r)))"

definition enc_queue :: "BlockIdBufList \<Rightarrow> bytes" where
  "enc_queue q = (if q = [] then [] else enc_many enc_id q)"

definition dec_queue :: "bytes \<Rightarrow> BlockIdBufList option" where
  "dec_queue s = (if s = [] then Some [] else whole (dec_many dec_id s))"

definition simpleProto :: proto where
  "simpleProto =
     \<lparr>Marshal_BlockIdBuf = enc_id,
      Marshal_Metadata = enc_metadata,
      Unmarshal_Metadata = dec_metadata,
      Marshal_Links = enc_links,
      Unmarshal_Links = dec_links,
      Marshal_Manifest = enc_manifest,
      Unmarshal_Manifest = dec_manifest,
      Marshal_List = enc_queue,
      Unmarshal_List = dec_queue\<rparr>"

text \<open>
  A new store, three block ids of increasing height, a block id at the height of the first
  with another header hash, and the stores reached by saving checkpoints one after
  another (the store is left as it is when a save does not commit).
\<close>

definition emptyStore :: store where
  "emptyStore = \<lparr>kv = Map.empty, vals = (\<lambda>h. 0), machs = (\<lambda>h. 0), trace = []\<rparr>"

definition idA :: BlockId where
  "idA = \<lparr>Height = 10, HeaderHash = 0xA\<rparr>"

definition idA' :: BlockId where
  "idA' = \<lparr>Height = 10, HeaderHash = 0xD\<rparr>"

definition idB :: BlockId where
  "idB = \<lparr>Height = 11, HeaderHash = 0xB\<rparr>"

definition idC :: BlockId where
  "idC = \<lparr>Height = 12, HeaderHash = 0xC\<rparr>"

definition ctxA :: CheckpointContext where
  "ctxA = \<lparr>ctxManifest = \<lparr>Values = [1], Machines = [2]\<rparr>, ctxValues = [1], ctxMachines = [2]\<rparr>"

definition saved :: "store \<Rightarrow> BlockId \<Rightarrow> bytes \<Rightarrow> store" where
  "saved s blockId contents =
     (case u_saveCheckpoint simpleProto s blockId contents ctxA of
        Inr (s', None) \<Rightarrow> s'
      | _ \<Rightarrow> s)"

definition store1 :: store where
  "store1 = saved emptyStore idA ''x''"

definition store2 :: store where
  "store2 = saved store1 idB ''y''"

definition store3 :: store where
  "store3 = saved store2 idC ''z''"

text \<open>The dead queue a tick leaves behind, as a reader decodes it.\<close>

definition queueAfterTick :: "proto \<Rightarrow> store \<Rightarrow> BlockIdBufList option" where
  "queueAfterTick p s =
     (case deleteSomeOldCheckpoints p s of
        Inl a \<Rightarrow> None
      | Inr s' \<Rightarrow> Unmarshal_List p (input (GetData s' ''deadqueue'')))"

text \<open>
  The count of the spec's \<^verbatim>\<open>gc_tick\<close>, in the spec's words: \<^verbatim>\<open>max(1, ceiling(len/10))\<close> entries,
  or zero if the queue is empty.
\<close>

definition ceilingTenth :: "nat \<Rightarrow> nat" where
  "ceilingTenth n = (n + 9) div 10"

definition specRemoved :: "nat \<Rightarrow> nat" where
  "specRemoved n = (if n = 0 then 0 else max 1 (ceilingTenth n))"

text \<open>A store whose dead queue holds eleven entries, and one whose metadata does not decode.\<close>

definition queue11 :: store where
  "queue11 = emptyStore\<lparr>kv := [''deadqueue'' \<mapsto> enc_queue (replicate 11 idA)]\<rparr>"

definition corruptStore :: store where
  "corruptStore = emptyStore\<lparr>kv := [''metadata'' \<mapsto> ''garbage'']\<rparr>"








text \<open>The metadata \<^verbatim>\<open>_saveCheckpoint\<close> creates for a store that has none.\<close>

definition firstMetadata :: "BlockId \<Rightarrow> CheckpointMetadata" where
  "firstMetadata I = \<lparr>FormatVersion = 1, Oldest = Some I, Newest = Some I\<rparr>"

section \<open>The concrete codec is lawful\<close>

lemma dec_enc_nat: "dec_nat (enc_nat n @ r) = Some (n, r)"
  by (induction n) (simp_all add: enc_nat_def)

lemma dec_enc_hash: "dec_hash (enc_hash h @ r) = Some (h, r)"
  by (simp add: dec_hash_def enc_hash_def dec_enc_nat)

lemma dec_enc_id: "dec_id (enc_id b @ r) = Some (b, r)"
  by (simp add: dec_id_def enc_id_def dec_enc_nat dec_enc_hash)

lemma dec_enc_opt: "dec_opt (enc_opt b @ r) = Some (b, r)"
  by (cases b) (simp_all add: enc_opt_def dec_enc_id)

lemma dec_enc_items:
  assumes "\<And>x r. dec (enc x @ r) = Some (x, r)"
  shows "dec_items dec (length xs) (concat (map enc xs) @ r) = Some (xs, r)"
  by (induction xs) (simp_all add: assms)

lemma dec_enc_many:
  assumes "\<And>x r. dec (enc x @ r) = Some (x, r)"
  shows "dec_many dec (enc_many enc xs @ r) = Some (xs, r)"
  by (simp add: dec_many_def enc_many_def dec_enc_nat dec_enc_items [OF assms])

lemma inj_enc_id: "inj enc_id"
proof (rule injI)
  fix a b :: BlockIdBuf
  assume "enc_id a = enc_id b"
  then have "dec_id (enc_id a @ []) = dec_id (enc_id b @ [])" by simp
  then show "a = b" unfolding dec_enc_id by simp
qed

lemma enc_nat_ne: "enc_nat n \<noteq> []"
  by (simp add: enc_nat_def)

lemma enc_opt_ne: "enc_opt b \<noteq> []"
  by (cases b) (simp_all add: enc_opt_def)

lemma enc_many_ne: "enc_many enc xs \<noteq> []"
  by (simp add: enc_many_def enc_nat_def)

lemma dec_enc_metadata: "dec_metadata (enc_metadata m) = Some m"
  using dec_enc_opt [of "Newest m" "[]"]
  by (simp add: dec_metadata_def enc_metadata_def enc_nat_ne dec_enc_nat dec_enc_opt whole_def)

lemma dec_enc_links: "dec_links (enc_links l) = Some l"
  using dec_enc_opt [of "Next l" "[]"]
  by (simp add: dec_links_def enc_links_def enc_opt_ne dec_enc_opt whole_def)

lemma dec_enc_manifest: "dec_manifest (enc_manifest m) = Some m"
  using dec_enc_many [of dec_hash enc_hash "Machines m" "[]", OF dec_enc_hash]
  by (simp add: dec_manifest_def enc_manifest_def enc_many_ne dec_enc_many [OF dec_enc_hash]
      whole_def)

lemma dec_enc_queue: "dec_queue (enc_queue q) = Some q"
  using dec_enc_many [of dec_id enc_id q "[]", OF dec_enc_id]
  by (simp add: dec_queue_def enc_queue_def enc_many_ne whole_def)

lemma dec_nil:
  "dec_metadata [] = Some emptyMetadata" "dec_links [] = Some emptyLinks"
  "dec_manifest [] = Some emptyManifest" "dec_queue [] = Some []"
  by (simp_all add: dec_metadata_def dec_links_def dec_manifest_def dec_queue_def)

lemma lawful_simpleProto: "lawful simpleProto"
  unfolding lawful_def simpleProto_def
  by (simp add: inj_enc_id dec_enc_metadata dec_enc_links dec_enc_manifest dec_enc_queue dec_nil)

section \<open>Keys, storage folds and the writes of a save\<close>

lemma keys_distinct:
  "getManifestKey p a \<noteq> ''metadata''" "getManifestKey p a \<noteq> ''deadqueue''"
  "getContentsKey p a \<noteq> ''metadata''" "getContentsKey p a \<noteq> ''deadqueue''"
  "getLinksKey p a \<noteq> ''metadata''" "getLinksKey p a \<noteq> ''deadqueue''"
  "getManifestKey p a \<noteq> getContentsKey p b" "getManifestKey p a \<noteq> getLinksKey p b"
  "getContentsKey p a \<noteq> getLinksKey p b" "getContentsKey p a \<noteq> getManifestKey p b"
  "getLinksKey p a \<noteq> getManifestKey p b" "getLinksKey p a \<noteq> getContentsKey p b"
  "''metadata'' \<noteq> getManifestKey p a" "''deadqueue'' \<noteq> getManifestKey p a"
  "''metadata'' \<noteq> getContentsKey p a" "''deadqueue'' \<noteq> getContentsKey p a"
  "''metadata'' \<noteq> getLinksKey p a" "''deadqueue'' \<noteq> getLinksKey p a"
  by (simp_all add: getManifestKey_def getContentsKey_def getLinksKey_def getKeyForId_def)

lemma key_eq_iff:
  assumes "lawful p"
  shows "getLinksKey p a = getLinksKey p b \<longleftrightarrow> a = b"
    and "getManifestKey p a = getManifestKey p b \<longleftrightarrow> a = b"
    and "getContentsKey p a = getContentsKey p b \<longleftrightarrow> a = b"
  using assms
  by (simp_all add: getManifestKey_def getContentsKey_def getLinksKey_def getKeyForId_def
      MarshalToBuf_def lawful_def inj_eq)

lemma fold_SaveValue:
  "kv (fold (\<lambda>val st. SaveValue st val) vs s) = kv s"
  "trace (fold (\<lambda>val st. SaveValue st val) vs s) = trace s @ map PutValue vs"
  by (induction vs arbitrary: s) (simp_all add: SaveValue_def)

lemma saveMachines_Inr:
  "\<exists>s'. saveMachines ms s = Inr s' \<and> kv s' = kv s \<and> trace s' = trace s @ map PutMachine ms"
proof (induction ms arbitrary: s)
  case Nil
  then show ?case by simp
next
  case (Cons m ms)
  from Cons [of "snd (Checkpoint m s)"] show ?case
    by (auto simp: Checkpoint_def)
qed

lemma fold_DeleteValue:
  "kv (fold (\<lambda>vbuf st. DeleteValue st vbuf) vs s) = kv s"
  "trace (fold (\<lambda>vbuf st. DeleteValue st vbuf) vs s) = trace s @ map DelValue vs"
  by (induction vs arbitrary: s) (simp_all add: DeleteValue_def)

lemma fold_DeleteCheckpoint:
  "kv (fold (\<lambda>mbuf st. DeleteCheckpoint st mbuf) ms s) = kv s"
  "trace (fold (\<lambda>mbuf st. DeleteCheckpoint st mbuf) ms s) = trace s @ map DelMachine ms"
  by (induction ms arbitrary: s) (simp_all add: DeleteCheckpoint_def)

text \<open>What SaveCheckpoint writes.\<close>

lemma SaveCheckpoint_writes:
  assumes L: "Unmarshal_Links p (input (kv s (getLinksKey p T))) = Some l"
  shows "\<exists>s'. SaveCheckpoint p s I T contents manifest vs ms = Inr s' \<and>
           kv s' = (kv s)
             (getManifestKey p I \<mapsto> Marshal_Manifest p manifest,
              getContentsKey p I \<mapsto> contents,
              getLinksKey p T \<mapsto> Marshal_Links p (l\<lparr>Next := Some I\<rparr>),
              getLinksKey p I \<mapsto> Marshal_Links p \<lparr>Prev = Some T, Next = Some I\<rparr>) \<and>
           trace s' = trace s @ map PutValue vs @ map PutMachine ms @
             [PutData (getManifestKey p I) (Marshal_Manifest p manifest),
              PutData (getContentsKey p I) contents,
              PutData (getLinksKey p T) (Marshal_Links p (l\<lparr>Next := Some I\<rparr>)),
              PutData (getLinksKey p I) (Marshal_Links p \<lparr>Prev = Some T, Next = Some I\<rparr>)]"
proof -
  obtain s2 where s2: "saveMachines ms (fold (\<lambda>val st. SaveValue st val) vs s) = Inr s2"
    "kv s2 = kv s" "trace s2 = trace s @ map PutValue vs @ map PutMachine ms"
    using saveMachines_Inr [of ms "fold (\<lambda>val st. SaveValue st val) vs s"]
    by (auto simp: fold_SaveValue)
  show ?thesis
    using L s2
    by (simp add: SaveCheckpoint_def u_updateNextPointer_def u_setBothPointers_def SaveData_def
        GetData_def keys_distinct MarshalToBuf_def Let_def)
qed


lemma SaveCheckpoint_Fatal:
  assumes "Unmarshal_Links p (input (kv s (getLinksKey p T))) = None"
  shows "SaveCheckpoint p s I T contents manifest vs ms = Inl Fatal"
proof -
  obtain s2 where s2: "saveMachines ms (fold (\<lambda>val st. SaveValue st val) vs s) = Inr s2"
    "kv s2 = kv s"
    using saveMachines_Inr [of ms "fold (\<lambda>val st. SaveValue st val) vs s"]
    by (auto simp: fold_SaveValue)
  show ?thesis
    using assms s2
    by (simp add: SaveCheckpoint_def u_updateNextPointer_def SaveData_def
        GetData_def keys_distinct Let_def)
qed


lemma save_commits:
  assumes M: "if len (RestoreMetadata s) = 0 then m = firstMetadata I
              else Unmarshal_Metadata p (input (RestoreMetadata s)) = Some m"
    and N: "Newest m = Some T"
    and L: "Unmarshal_Links p (input (kv s (getLinksKey p T))) = Some l"
  shows "\<exists>s'. u_saveCheckpoint p s I contents ctx = Inr (s', None) \<and>
           kv s' = (kv s)
             (getManifestKey p I \<mapsto> Marshal_Manifest p (ctxManifest ctx),
              getContentsKey p I \<mapsto> contents,
              getLinksKey p T \<mapsto> Marshal_Links p (l\<lparr>Next := Some I\<rparr>),
              getLinksKey p I \<mapsto> Marshal_Links p \<lparr>Prev = Some T, Next = Some I\<rparr>,
              ''metadata'' \<mapsto> Marshal_Metadata p (m\<lparr>Newest := Some I\<rparr>)) \<and>
           trace s' = trace s @
             (if len (RestoreMetadata s) = 0 then [PutData ''metadata'' (Marshal_Metadata p m)]
              else []) @
             map PutValue (ctxValues ctx) @ map PutMachine (ctxMachines ctx) @
             [PutData (getManifestKey p I) (Marshal_Manifest p (ctxManifest ctx)),
              PutData (getContentsKey p I) contents,
              PutData (getLinksKey p T) (Marshal_Links p (l\<lparr>Next := Some I\<rparr>)),
              PutData (getLinksKey p I) (Marshal_Links p \<lparr>Prev = Some T, Next = Some I\<rparr>),
              PutData ''metadata'' (Marshal_Metadata p (m\<lparr>Newest := Some I\<rparr>))]"
proof (cases "len (RestoreMetadata s) = 0")
  case True
  define s1 where "s1 = s\<lparr>kv := (kv s)(''metadata'' \<mapsto> Marshal_Metadata p m),
    trace := trace s @ [PutData ''metadata'' (Marshal_Metadata p m)]\<rparr>"
  have L1: "Unmarshal_Links p (input (kv s1 (getLinksKey p T))) = Some l"
    using L by (simp add: s1_def keys_distinct)
  from SaveCheckpoint_writes [OF L1, of I contents "ctxManifest ctx" "ctxValues ctx" "ctxMachines ctx"]
  obtain s2 where s2: "SaveCheckpoint p s1 I T contents (ctxManifest ctx) (ctxValues ctx)
      (ctxMachines ctx) = Inr s2"
    and kv2: "kv s2 = (kv s1)
             (getManifestKey p I \<mapsto> Marshal_Manifest p (ctxManifest ctx),
              getContentsKey p I \<mapsto> contents,
              getLinksKey p T \<mapsto> Marshal_Links p (l\<lparr>Next := Some I\<rparr>),
              getLinksKey p I \<mapsto> Marshal_Links p \<lparr>Prev = Some T, Next = Some I\<rparr>)"
    and tr2: "trace s2 = trace s1 @ map PutValue (ctxValues ctx) @ map PutMachine (ctxMachines ctx) @
             [PutData (getManifestKey p I) (Marshal_Manifest p (ctxManifest ctx)),
              PutData (getContentsKey p I) contents,
              PutData (getLinksKey p T) (Marshal_Links p (l\<lparr>Next := Some I\<rparr>)),
              PutData (getLinksKey p I) (Marshal_Links p \<lparr>Prev = Some T, Next = Some I\<rparr>)]"
    by blast
  have m: "m = firstMetadata I" using M True by simp
  have "u_saveCheckpoint p s I contents ctx =
      Inr (s2\<lparr>kv := (kv s2)(''metadata'' \<mapsto> Marshal_Metadata p (m\<lparr>Newest := Some I\<rparr>)),
        trace := trace s2 @ [PutData ''metadata'' (Marshal_Metadata p (m\<lparr>Newest := Some I\<rparr>))]\<rparr>, None)"
    using True N s2
    by (simp add: u_saveCheckpoint_def SaveMetadata_def SaveData_def Let_def MarshalToBuf_def
        Unmarshal_def UnmarshalBuf_def firstMetadata_def s1_def m)
  then show ?thesis
    using True kv2 tr2 by (auto simp: s1_def keys_distinct fun_upd_twist)
next
  case False
  from SaveCheckpoint_writes [OF L, of I contents "ctxManifest ctx" "ctxValues ctx" "ctxMachines ctx"]
  obtain s2 where s2: "SaveCheckpoint p s I T contents (ctxManifest ctx) (ctxValues ctx)
      (ctxMachines ctx) = Inr s2"
    and kv2: "kv s2 = (kv s)
             (getManifestKey p I \<mapsto> Marshal_Manifest p (ctxManifest ctx),
              getContentsKey p I \<mapsto> contents,
              getLinksKey p T \<mapsto> Marshal_Links p (l\<lparr>Next := Some I\<rparr>),
              getLinksKey p I \<mapsto> Marshal_Links p \<lparr>Prev = Some T, Next = Some I\<rparr>)"
    and tr2: "trace s2 = trace s @ map PutValue (ctxValues ctx) @ map PutMachine (ctxMachines ctx) @
             [PutData (getManifestKey p I) (Marshal_Manifest p (ctxManifest ctx)),
              PutData (getContentsKey p I) contents,
              PutData (getLinksKey p T) (Marshal_Links p (l\<lparr>Next := Some I\<rparr>)),
              PutData (getLinksKey p I) (Marshal_Links p \<lparr>Prev = Some T, Next = Some I\<rparr>)]"
    by blast
  have m: "Unmarshal_Metadata p (input (RestoreMetadata s)) = Some m" using M False by simp
  obtain raw where ne: "RestoreMetadata s = Some raw"
    using False by (auto simp: len_def split: option.splits)
  have "u_saveCheckpoint p s I contents ctx =
      Inr (s2\<lparr>kv := (kv s2)(''metadata'' \<mapsto> Marshal_Metadata p (m\<lparr>Newest := Some I\<rparr>)),
        trace := trace s2 @ [PutData ''metadata'' (Marshal_Metadata p (m\<lparr>Newest := Some I\<rparr>))]\<rparr>, None)"
    using False N s2 m ne
    by (simp add: u_saveCheckpoint_def SaveMetadata_def SaveData_def Let_def MarshalToBuf_def
        Unmarshal_def UnmarshalBuf_def)
  then show ?thesis
    using False kv2 tr2 by auto
qed

lemma save_committed:
  assumes C: "u_saveCheckpoint p s I contents ctx = Inr (s', None)"
  shows "\<exists>m T l.
           (if len (RestoreMetadata s) = 0 then m = firstMetadata I
            else Unmarshal_Metadata p (input (RestoreMetadata s)) = Some m) \<and>
           Newest m = Some T \<and>
           Unmarshal_Links p (input (kv s (getLinksKey p T))) = Some l"
proof (cases "len (RestoreMetadata s) = 0")
  case True
  show ?thesis
  proof (cases "Unmarshal_Links p (input (kv s (getLinksKey p I)))")
    case None
    then have "Unmarshal_Links p (input (kv (s\<lparr>kv := (kv s)(''metadata'' \<mapsto> x), trace := t\<rparr>)
        (getLinksKey p I))) = None" for x t
      by (simp add: keys_distinct)
    from SaveCheckpoint_Fatal [OF this] C True show ?thesis
      by (simp add: u_saveCheckpoint_def SaveMetadata_def SaveData_def Let_def MarshalToBuf_def
        Unmarshal_def UnmarshalBuf_def)
  next
    case (Some l)
    with True show ?thesis by (auto simp: firstMetadata_def)
  qed
next
  case False
  then obtain raw where ne: "RestoreMetadata s = Some raw"
    by (auto simp: len_def split: option.splits)
  from C False ne obtain m where m: "Unmarshal_Metadata p (input (RestoreMetadata s)) = Some m"
    by (cases "Unmarshal_Metadata p (input (RestoreMetadata s))")
      (auto simp: u_saveCheckpoint_def Let_def)
  from C False ne m obtain T where T: "Newest m = Some T"
    by (cases "Newest m") (auto simp: u_saveCheckpoint_def Let_def Unmarshal_def)
  show ?thesis
  proof (cases "Unmarshal_Links p (input (kv s (getLinksKey p T)))")
    case None
    from SaveCheckpoint_Fatal [OF this] C False ne m T show ?thesis
      by (simp add: u_saveCheckpoint_def Let_def Unmarshal_def UnmarshalBuf_def)
  next
    case (Some l)
    with False m T show ?thesis by auto
  qed
qed

lemma lawfulD:
  assumes "lawful p"
  shows "Unmarshal_Metadata p (Marshal_Metadata p m) = Some m"
    and "Unmarshal_Links p (Marshal_Links p l) = Some l"
    and "Unmarshal_Manifest p (Marshal_Manifest p mf) = Some mf"
    and "Unmarshal_List p (Marshal_List p q) = Some q"
    and "Unmarshal_Metadata p [] = Some emptyMetadata"
    and "Unmarshal_Links p [] = Some emptyLinks"
    and "Unmarshal_Manifest p [] = Some emptyManifest"
    and "Unmarshal_List p [] = Some []"
  using assms by (simp_all add: lawful_def)

section \<open>Saving: links and write order\<close>

text \<open>
  Claim C2. For every committed save of id \<open>I\<close> into a store whose previous tip was \<open>T\<close>
  (\<open>T = I\<close> when the store had no metadata): afterwards the stored metadata decodes with
  \<open>newest = I\<close>, the links record of \<open>I\<close> is \<open>prev = T\<close>, \<open>next = I\<close>, and when \<open>T \<noteq> I\<close>
  the links record of \<open>T\<close> has \<open>next = I\<close>. The first checkpoint is included, although
  \<^verbatim>\<open>SaveCheckpoint\<close> calls \<^verbatim>\<open>_updateNextPointer\<close> for it as well.
\<close>

theorem save_links_new_tip:
  assumes law: "lawful p"
    and commit: "u_saveCheckpoint p s I contents ctx = Inr (s', None)"
    and tip: "if len (RestoreMetadata s) = 0 then T = I
              else (\<exists>m. Unmarshal_Metadata p (input (RestoreMetadata s)) = Some m \<and>
                        Newest m = Some T)"
  shows "(\<exists>m. Unmarshal_Metadata p (input (RestoreMetadata s')) = Some m \<and> Newest m = Some I) \<and>
         Unmarshal_Links p (input (GetData s' (getLinksKey p I))) =
           Some \<lparr>Prev = Some T, Next = Some I\<rparr> \<and>
         (T \<noteq> I \<longrightarrow>
            (\<exists>l. Unmarshal_Links p (input (GetData s' (getLinksKey p T))) = Some l \<and>
                 Next l = Some I))"
proof -
  from save_committed [OF commit] obtain m T' l where
    M: "if len (RestoreMetadata s) = 0 then m = firstMetadata I
        else Unmarshal_Metadata p (input (RestoreMetadata s)) = Some m"
    and N: "Newest m = Some T'"
    and L: "Unmarshal_Links p (input (kv s (getLinksKey p T'))) = Some l"
    by blast
  have T: "T' = T"
    using M N tip by (auto simp: firstMetadata_def split: if_splits)
  from save_commits [OF M N L, of contents ctx] commit
  have kv': "kv s' = (kv s)
             (getManifestKey p I \<mapsto> Marshal_Manifest p (ctxManifest ctx),
              getContentsKey p I \<mapsto> contents,
              getLinksKey p T \<mapsto> Marshal_Links p (l\<lparr>Next := Some I\<rparr>),
              getLinksKey p I \<mapsto> Marshal_Links p \<lparr>Prev = Some T, Next = Some I\<rparr>,
              ''metadata'' \<mapsto> Marshal_Metadata p (m\<lparr>Newest := Some I\<rparr>))"
    unfolding T by auto
  show ?thesis
    unfolding kv' RestoreMetadata_def GetData_def
    by (simp add: input_def keys_distinct key_eq_iff [OF law] lawfulD [OF law])
qed

text \<open>
  Claim C3, as amended. A committed save performs its writes in this order: the metadata
  record first when the store had none (oldest and newest both the new id); then every
  value, every machine, the manifest and the contents of the new id; then the update of
  the previous tip's next pointer, always, also when the previous tip is the new id
  itself; then the links record of the new id; and last the metadata with the new id as
  newest.
\<close>

theorem save_write_order:
  assumes commit: "u_saveCheckpoint p s I contents ctx = Inr (s', None)"
  shows "\<exists>m T l.
           (if len (RestoreMetadata s) = 0 then m = firstMetadata I
            else Unmarshal_Metadata p (input (RestoreMetadata s)) = Some m) \<and>
           Newest m = Some T \<and>
           Unmarshal_Links p (input (GetData s (getLinksKey p T))) = Some l \<and>
           trace s' = trace s @
             (if len (RestoreMetadata s) = 0 then [PutData ''metadata'' (Marshal_Metadata p m)]
              else []) @
             map PutValue (ctxValues ctx) @ map PutMachine (ctxMachines ctx) @
             [PutData (getManifestKey p I) (Marshal_Manifest p (ctxManifest ctx)),
              PutData (getContentsKey p I) contents,
              PutData (getLinksKey p T) (Marshal_Links p (l\<lparr>Next := Some I\<rparr>)),
              PutData (getLinksKey p I) (Marshal_Links p \<lparr>Prev = Some T, Next = Some I\<rparr>),
              PutData ''metadata'' (Marshal_Metadata p (m\<lparr>Newest := Some I\<rparr>))]"
proof -
  from save_committed [OF commit] obtain m T l where
    M: "if len (RestoreMetadata s) = 0 then m = firstMetadata I
        else Unmarshal_Metadata p (input (RestoreMetadata s)) = Some m"
    and N: "Newest m = Some T"
    and L: "Unmarshal_Links p (input (kv s (getLinksKey p T))) = Some l"
    by blast
  from save_commits [OF M N L, of contents ctx] commit
  have "trace s' = trace s @
             (if len (RestoreMetadata s) = 0 then [PutData ''metadata'' (Marshal_Metadata p m)]
              else []) @
             map PutValue (ctxValues ctx) @ map PutMachine (ctxMachines ctx) @
             [PutData (getManifestKey p I) (Marshal_Manifest p (ctxManifest ctx)),
              PutData (getContentsKey p I) contents,
              PutData (getLinksKey p T) (Marshal_Links p (l\<lparr>Next := Some I\<rparr>)),
              PutData (getLinksKey p I) (Marshal_Links p \<lparr>Prev = Some T, Next = Some I\<rparr>),
              PutData ''metadata'' (Marshal_Metadata p (m\<lparr>Newest := Some I\<rparr>))]"
    by auto
  with M N L show ?thesis
    unfolding GetData_def by blast
qed

section \<open>The concrete stores\<close>

text \<open>Facts about the concrete stores.\<close>

lemma emptyStore_simps:
  "kv emptyStore k = None" "trace emptyStore = []" "RestoreMetadata emptyStore = None"
  by (simp_all add: emptyStore_def RestoreMetadata_def GetData_def)

lemma ids_distinct:
  "idA \<noteq> idB" "idA \<noteq> idC" "idB \<noteq> idC" "idB \<noteq> idA" "idC \<noteq> idA" "idC \<noteq> idB"
  "idA \<noteq> idA'" "idA' \<noteq> idA"
  by (simp_all add: idA_def idB_def idC_def idA'_def)

lemma enc_metadata_ne: "Oldest m \<noteq> None \<Longrightarrow> enc_metadata m \<noteq> []"
  by (auto simp: enc_metadata_def emptyMetadata_def enc_nat_ne)

lemma simpleProto_simps:
  "Marshal_Metadata simpleProto = enc_metadata" "Unmarshal_Metadata simpleProto = dec_metadata"
  "Marshal_Links simpleProto = enc_links" "Unmarshal_Links simpleProto = dec_links"
  "Marshal_Manifest simpleProto = enc_manifest" "Unmarshal_Manifest simpleProto = dec_manifest"
  "Marshal_List simpleProto = enc_queue" "Unmarshal_List simpleProto = dec_queue"
  by (simp_all add: simpleProto_def)

lemma store1_facts:
  "u_saveCheckpoint simpleProto emptyStore idA ''x'' ctxA = Inr (store1, None)"
  "kv store1 = Map.empty
     (getManifestKey simpleProto idA \<mapsto> enc_manifest (ctxManifest ctxA),
      getContentsKey simpleProto idA \<mapsto> ''x'',
      getLinksKey simpleProto idA \<mapsto> enc_links \<lparr>Prev = Some idA, Next = Some idA\<rparr>,
      ''metadata'' \<mapsto> enc_metadata (firstMetadata idA))"
  "trace store1 =
     [PutData ''metadata'' (enc_metadata (firstMetadata idA)),
      PutValue 1, PutMachine 2,
      PutData (getManifestKey simpleProto idA) (enc_manifest (ctxManifest ctxA)),
      PutData (getContentsKey simpleProto idA) ''x'',
      PutData (getLinksKey simpleProto idA) (enc_links \<lparr>Prev = None, Next = Some idA\<rparr>),
      PutData (getLinksKey simpleProto idA) (enc_links \<lparr>Prev = Some idA, Next = Some idA\<rparr>),
      PutData ''metadata'' (enc_metadata (firstMetadata idA))]"
proof -
  have M: "if len (RestoreMetadata emptyStore) = 0 then firstMetadata idA = firstMetadata idA
      else Unmarshal_Metadata simpleProto (input (RestoreMetadata emptyStore)) = Some (firstMetadata idA)"
    by (simp add: emptyStore_simps len_def)
  have N: "Newest (firstMetadata idA) = Some idA" by (simp add: firstMetadata_def)
  have L: "Unmarshal_Links simpleProto (input (kv emptyStore (getLinksKey simpleProto idA))) = Some emptyLinks"
    by (simp add: emptyStore_simps input_def simpleProto_simps dec_nil)
  from save_commits [OF M N L, of "''x''" ctxA]
  obtain s' where s': "u_saveCheckpoint simpleProto emptyStore idA ''x'' ctxA = Inr (s', None)"
    and kv': "kv s' = (kv emptyStore)
             (getManifestKey simpleProto idA \<mapsto> Marshal_Manifest simpleProto (ctxManifest ctxA),
              getContentsKey simpleProto idA \<mapsto> ''x'',
              getLinksKey simpleProto idA \<mapsto> Marshal_Links simpleProto (emptyLinks\<lparr>Next := Some idA\<rparr>),
              getLinksKey simpleProto idA \<mapsto> Marshal_Links simpleProto \<lparr>Prev = Some idA, Next = Some idA\<rparr>,
              ''metadata'' \<mapsto> Marshal_Metadata simpleProto ((firstMetadata idA)\<lparr>Newest := Some idA\<rparr>))"
    and tr': "trace s' = trace emptyStore @
             (if len (RestoreMetadata emptyStore) = 0
              then [PutData ''metadata'' (Marshal_Metadata simpleProto (firstMetadata idA))]
              else []) @
             map PutValue (ctxValues ctxA) @ map PutMachine (ctxMachines ctxA) @
             [PutData (getManifestKey simpleProto idA) (Marshal_Manifest simpleProto (ctxManifest ctxA)),
              PutData (getContentsKey simpleProto idA) ''x'',
              PutData (getLinksKey simpleProto idA) (Marshal_Links simpleProto (emptyLinks\<lparr>Next := Some idA\<rparr>)),
              PutData (getLinksKey simpleProto idA) (Marshal_Links simpleProto \<lparr>Prev = Some idA, Next = Some idA\<rparr>),
              PutData ''metadata'' (Marshal_Metadata simpleProto ((firstMetadata idA)\<lparr>Newest := Some idA\<rparr>))]"
    by blast
  have eq: "store1 = s'" by (simp add: store1_def saved_def s')
  show "u_saveCheckpoint simpleProto emptyStore idA ''x'' ctxA = Inr (store1, None)"
    using s' eq by simp
  show "kv store1 = Map.empty
     (getManifestKey simpleProto idA \<mapsto> enc_manifest (ctxManifest ctxA),
      getContentsKey simpleProto idA \<mapsto> ''x'',
      getLinksKey simpleProto idA \<mapsto> enc_links \<lparr>Prev = Some idA, Next = Some idA\<rparr>,
      ''metadata'' \<mapsto> enc_metadata (firstMetadata idA))"
    unfolding eq kv' by (simp add: simpleProto_simps firstMetadata_def emptyStore_def)
  show "trace store1 =
     [PutData ''metadata'' (enc_metadata (firstMetadata idA)),
      PutValue 1, PutMachine 2,
      PutData (getManifestKey simpleProto idA) (enc_manifest (ctxManifest ctxA)),
      PutData (getContentsKey simpleProto idA) ''x'',
      PutData (getLinksKey simpleProto idA) (enc_links \<lparr>Prev = None, Next = Some idA\<rparr>),
      PutData (getLinksKey simpleProto idA) (enc_links \<lparr>Prev = Some idA, Next = Some idA\<rparr>),
      PutData ''metadata'' (enc_metadata (firstMetadata idA))]"
    unfolding eq tr'
    by (simp add: simpleProto_simps firstMetadata_def emptyStore_simps len_def ctxA_def emptyLinks_def)
qed


lemma saved_next:
  assumes md: "kv s ''metadata'' = Some (enc_metadata m)"
    and old: "Oldest m \<noteq> None"
    and new: "Newest m = Some T"
    and lk: "kv s (getLinksKey simpleProto T) = Some (enc_links l)"
  shows "u_saveCheckpoint simpleProto s I c ctxA = Inr (saved s I c, None)"
    and "kv (saved s I c) = (kv s)
             (getManifestKey simpleProto I \<mapsto> enc_manifest (ctxManifest ctxA),
              getContentsKey simpleProto I \<mapsto> c,
              getLinksKey simpleProto T \<mapsto> enc_links (l\<lparr>Next := Some I\<rparr>),
              getLinksKey simpleProto I \<mapsto> enc_links \<lparr>Prev = Some T, Next = Some I\<rparr>,
              ''metadata'' \<mapsto> enc_metadata (m\<lparr>Newest := Some I\<rparr>))"
proof -
  have M: "if len (RestoreMetadata s) = 0 then m = firstMetadata I
      else Unmarshal_Metadata simpleProto (input (RestoreMetadata s)) = Some m"
    using md enc_metadata_ne [OF old]
    by (simp add: RestoreMetadata_def GetData_def len_def input_def simpleProto_simps
        dec_enc_metadata)
  have L: "Unmarshal_Links simpleProto (input (kv s (getLinksKey simpleProto T))) = Some l"
    using lk by (simp add: input_def simpleProto_simps dec_enc_links)
  from save_commits [OF M new L, of c ctxA]
  obtain s' where s': "u_saveCheckpoint simpleProto s I c ctxA = Inr (s', None)"
    and kv': "kv s' = (kv s)
             (getManifestKey simpleProto I \<mapsto> Marshal_Manifest simpleProto (ctxManifest ctxA),
              getContentsKey simpleProto I \<mapsto> c,
              getLinksKey simpleProto T \<mapsto> Marshal_Links simpleProto (l\<lparr>Next := Some I\<rparr>),
              getLinksKey simpleProto I \<mapsto> Marshal_Links simpleProto \<lparr>Prev = Some T, Next = Some I\<rparr>,
              ''metadata'' \<mapsto> Marshal_Metadata simpleProto (m\<lparr>Newest := Some I\<rparr>))"
    by blast
  have eq: "saved s I c = s'" by (simp add: saved_def s')
  show "u_saveCheckpoint simpleProto s I c ctxA = Inr (saved s I c, None)"
    using s' eq by simp
  show "kv (saved s I c) = (kv s)
             (getManifestKey simpleProto I \<mapsto> enc_manifest (ctxManifest ctxA),
              getContentsKey simpleProto I \<mapsto> c,
              getLinksKey simpleProto T \<mapsto> enc_links (l\<lparr>Next := Some I\<rparr>),
              getLinksKey simpleProto I \<mapsto> enc_links \<lparr>Prev = Some T, Next = Some I\<rparr>,
              ''metadata'' \<mapsto> enc_metadata (m\<lparr>Newest := Some I\<rparr>))"
    unfolding eq kv' by (simp add: simpleProto_simps)
qed

lemmas simple_keys = keys_distinct key_eq_iff [OF lawful_simpleProto] ids_distinct

lemma store1_lookup:
  "kv store1 ''metadata'' = Some (enc_metadata (firstMetadata idA))"
  "kv store1 (getLinksKey simpleProto idA) = Some (enc_links \<lparr>Prev = Some idA, Next = Some idA\<rparr>)"
  "kv store1 (getManifestKey simpleProto idA) = Some (enc_manifest (ctxManifest ctxA))"
  "kv store1 (getContentsKey simpleProto idA) = Some ''x''"
  "kv store1 (getContentsKey simpleProto idA') = None"
  "kv store1 ''deadqueue'' = None"
  by (simp_all add: store1_facts(2) simple_keys)

lemma store2_facts:
  "u_saveCheckpoint simpleProto store1 idB ''y'' ctxA = Inr (store2, None)"
  "kv store2 ''metadata'' =
     Some (enc_metadata \<lparr>FormatVersion = 1, Oldest = Some idA, Newest = Some idB\<rparr>)"
  "kv store2 (getLinksKey simpleProto idA) = Some (enc_links \<lparr>Prev = Some idA, Next = Some idB\<rparr>)"
  "kv store2 (getLinksKey simpleProto idB) = Some (enc_links \<lparr>Prev = Some idA, Next = Some idB\<rparr>)"
  "kv store2 ''deadqueue'' = None"
proof -
  have old: "Oldest (firstMetadata idA) \<noteq> None" and new: "Newest (firstMetadata idA) = Some idA"
    by (simp_all add: firstMetadata_def)
  note nx = saved_next [OF store1_lookup(1) old new store1_lookup(2), of idB "''y''", folded store2_def]
  show "u_saveCheckpoint simpleProto store1 idB ''y'' ctxA = Inr (store2, None)"
    by (rule nx(1))
  show "kv store2 ''metadata'' =
     Some (enc_metadata \<lparr>FormatVersion = 1, Oldest = Some idA, Newest = Some idB\<rparr>)"
    "kv store2 (getLinksKey simpleProto idA) = Some (enc_links \<lparr>Prev = Some idA, Next = Some idB\<rparr>)"
    "kv store2 (getLinksKey simpleProto idB) = Some (enc_links \<lparr>Prev = Some idA, Next = Some idB\<rparr>)"
    "kv store2 ''deadqueue'' = None"
    unfolding nx(2) by (simp_all add: simple_keys store1_lookup firstMetadata_def)
qed

lemma store3_facts:
  "u_saveCheckpoint simpleProto store2 idC ''z'' ctxA = Inr (store3, None)"
  "kv store3 ''metadata'' =
     Some (enc_metadata \<lparr>FormatVersion = 1, Oldest = Some idA, Newest = Some idC\<rparr>)"
  "kv store3 (getLinksKey simpleProto idB) = Some (enc_links \<lparr>Prev = Some idA, Next = Some idC\<rparr>)"
  "kv store3 (getLinksKey simpleProto idC) = Some (enc_links \<lparr>Prev = Some idB, Next = Some idC\<rparr>)"
  "kv store3 ''deadqueue'' = None"
  "kv store3 (getLinksKey simpleProto idA) = Some (enc_links \<lparr>Prev = Some idA, Next = Some idB\<rparr>)"
proof -
  have old: "Oldest \<lparr>FormatVersion = 1, Oldest = Some idA, Newest = Some idB\<rparr> \<noteq> None"
    and new: "Newest \<lparr>FormatVersion = 1, Oldest = Some idA, Newest = Some idB\<rparr> = Some idB"
    by simp_all
  note nx = saved_next [OF store2_facts(2) old new store2_facts(4), of idC "''z''", folded store3_def]
  show "u_saveCheckpoint simpleProto store2 idC ''z'' ctxA = Inr (store3, None)"
    by (rule nx(1))
  show "kv store3 ''metadata'' =
     Some (enc_metadata \<lparr>FormatVersion = 1, Oldest = Some idA, Newest = Some idC\<rparr>)"
    "kv store3 (getLinksKey simpleProto idB) = Some (enc_links \<lparr>Prev = Some idA, Next = Some idC\<rparr>)"
    "kv store3 (getLinksKey simpleProto idC) = Some (enc_links \<lparr>Prev = Some idB, Next = Some idC\<rparr>)"
    "kv store3 ''deadqueue'' = None"
    "kv store3 (getLinksKey simpleProto idA) = Some (enc_links \<lparr>Prev = Some idA, Next = Some idB\<rparr>)"
    unfolding nx(2) by (simp_all add: simple_keys store2_facts)
qed

text \<open>Claim C2 at the second save of the concrete history: the tip moves from \<open>idA\<close> to \<open>idB\<close>.\<close>

theorem save_links_new_tip_witness:
  "lawful simpleProto \<and>
   u_saveCheckpoint simpleProto emptyStore idA ''x'' ctxA = Inr (store1, None) \<and>
   len (RestoreMetadata emptyStore) = 0 \<and>
   (\<exists>m. Unmarshal_Metadata simpleProto (input (RestoreMetadata store1)) = Some m \<and>
        Newest m = Some idA) \<and>
   Unmarshal_Links simpleProto (input (GetData store1 (getLinksKey simpleProto idA))) =
     Some \<lparr>Prev = Some idA, Next = Some idA\<rparr> \<and>
   u_saveCheckpoint simpleProto store1 idB ''y'' ctxA = Inr (store2, None) \<and>
   Unmarshal_Metadata simpleProto (input (RestoreMetadata store1)) = Some (firstMetadata idA) \<and>
   Newest (firstMetadata idA) = Some idA \<and>
   (\<exists>m. Unmarshal_Metadata simpleProto (input (RestoreMetadata store2)) = Some m \<and>
        Newest m = Some idB) \<and>
   Unmarshal_Links simpleProto (input (GetData store2 (getLinksKey simpleProto idB))) =
     Some \<lparr>Prev = Some idA, Next = Some idB\<rparr> \<and>
   (\<exists>l. Unmarshal_Links simpleProto (input (GetData store2 (getLinksKey simpleProto idA))) = Some l \<and>
        Next l = Some idB)"
proof -
  have e: "len (RestoreMetadata emptyStore) = 0"
    by (simp add: emptyStore_simps len_def)
  then have tip0: "if len (RestoreMetadata emptyStore) = 0 then idA = idA
     else (\<exists>m. Unmarshal_Metadata simpleProto (input (RestoreMetadata emptyStore)) = Some m \<and>
               Newest m = Some idA)"
    by simp
  note first = save_links_new_tip [OF lawful_simpleProto store1_facts(1) tip0]
  have md: "Unmarshal_Metadata simpleProto (input (RestoreMetadata store1)) = Some (firstMetadata idA)"
    by (simp add: RestoreMetadata_def GetData_def store1_lookup input_def simpleProto_simps
        dec_enc_metadata)
  have nw: "Newest (firstMetadata idA) = Some idA" by (simp add: firstMetadata_def)
  have ne: "len (RestoreMetadata store1) \<noteq> 0"
    using enc_metadata_ne [of "firstMetadata idA"]
    by (simp add: RestoreMetadata_def GetData_def store1_lookup len_def firstMetadata_def)
  have tip: "if len (RestoreMetadata store1) = 0 then idA = idB
     else (\<exists>m. Unmarshal_Metadata simpleProto (input (RestoreMetadata store1)) = Some m \<and>
               Newest m = Some idA)"
    using md nw ne by simp
  from save_links_new_tip [OF lawful_simpleProto store2_facts(1) tip] first
  show ?thesis
    using lawful_simpleProto store1_facts(1) store2_facts(1) md nw e by (simp add: ids_distinct)
qed

text \<open>Claim C3 as amended, at the second save of the concrete history.\<close>

theorem save_write_order_witness:
  "u_saveCheckpoint simpleProto store1 idB ''y'' ctxA = Inr (store2, None) \<and>
   trace store2 = trace store1 @
     [PutValue 1, PutMachine 2,
      PutData (getManifestKey simpleProto idB) (enc_manifest \<lparr>Values = [1], Machines = [2]\<rparr>),
      PutData (getContentsKey simpleProto idB) ''y'',
      PutData (getLinksKey simpleProto idA) (enc_links \<lparr>Prev = Some idA, Next = Some idB\<rparr>),
      PutData (getLinksKey simpleProto idB) (enc_links \<lparr>Prev = Some idA, Next = Some idB\<rparr>),
      PutData ''metadata'' (enc_metadata \<lparr>FormatVersion = 1, Oldest = Some idA, Newest = Some idB\<rparr>)]"
proof -
  have ne: "len (RestoreMetadata store1) \<noteq> 0"
    using enc_metadata_ne [of "firstMetadata idA"]
    by (simp add: RestoreMetadata_def GetData_def store1_lookup len_def firstMetadata_def)
  from save_write_order [OF store2_facts(1)] obtain m T l where
    "Unmarshal_Metadata simpleProto (input (RestoreMetadata store1)) = Some m"
    "Newest m = Some T"
    "Unmarshal_Links simpleProto (input (GetData store1 (getLinksKey simpleProto T))) = Some l"
    and tr: "trace store2 = trace store1 @
             map PutValue (ctxValues ctxA) @ map PutMachine (ctxMachines ctxA) @
             [PutData (getManifestKey simpleProto idB) (Marshal_Manifest simpleProto (ctxManifest ctxA)),
              PutData (getContentsKey simpleProto idB) ''y'',
              PutData (getLinksKey simpleProto T) (Marshal_Links simpleProto (l\<lparr>Next := Some idB\<rparr>)),
              PutData (getLinksKey simpleProto idB) (Marshal_Links simpleProto \<lparr>Prev = Some T, Next = Some idB\<rparr>),
              PutData ''metadata'' (Marshal_Metadata simpleProto (m\<lparr>Newest := Some idB\<rparr>))]"
    using ne by auto
  then have "m = firstMetadata idA" "T = idA" "l = \<lparr>Prev = Some idA, Next = Some idA\<rparr>"
    by (auto simp: RestoreMetadata_def GetData_def store1_lookup input_def simpleProto_simps
        dec_enc_metadata dec_enc_links firstMetadata_def)
  with tr show ?thesis
    using store2_facts(1) by (simp add: simpleProto_simps ctxA_def firstMetadata_def)
qed

text \<open>
  Claim C3 as stated fails at the first save into a new store: the first write is a
  metadata write, before any checkpoint record, and the next pointer of the new id is
  updated (with no prev) before its links record is written.
\<close>

theorem first_save_writes_metadata_first:
  "u_saveCheckpoint simpleProto emptyStore idA ''x'' ctxA = Inr (store1, None) \<and>
   trace emptyStore = [] \<and>
   trace store1 =
     [PutData ''metadata'' (enc_metadata \<lparr>FormatVersion = 1, Oldest = Some idA, Newest = Some idA\<rparr>),
      PutValue 1, PutMachine 2,
      PutData (getManifestKey simpleProto idA) (enc_manifest \<lparr>Values = [1], Machines = [2]\<rparr>),
      PutData (getContentsKey simpleProto idA) ''x'',
      PutData (getLinksKey simpleProto idA) (enc_links \<lparr>Prev = None, Next = Some idA\<rparr>),
      PutData (getLinksKey simpleProto idA) (enc_links \<lparr>Prev = Some idA, Next = Some idA\<rparr>),
      PutData ''metadata'' (enc_metadata \<lparr>FormatVersion = 1, Oldest = Some idA, Newest = Some idA\<rparr>)]"
  using store1_facts(1,3) by (simp add: emptyStore_simps firstMetadata_def ctxA_def)

section \<open>Garbage collection\<close>

lemma DeleteOneOldCheckpoint_kv:
  "kv (DeleteOneOldCheckpoint p s I) ''deadqueue'' = kv s ''deadqueue''"
  by (simp add: DeleteOneOldCheckpoint_def DeleteData_def Let_def fold_DeleteValue
      fold_DeleteCheckpoint keys_distinct split: option.splits)

lemma deleteLoop_drop:
  "n \<le> length q \<Longrightarrow> \<exists>s'. deleteLoop p n s q = Inr (s', drop n q)"
proof (induction n arbitrary: s q)
  case 0
  then show ?case by simp
next
  case (Suc n)
  then obtain b rest where q: "q = b # rest" by (cases q) auto
  with Suc.prems have "n \<le> length rest" by simp
  from Suc.IH [OF this] q show ?case by simp
qed

lemma numToDelete_le: "numToDelete n \<le> n"
  by (simp add: numToDelete_def Let_def)

lemma numToDelete_eq: "numToDelete n = (if n = 0 then 0 else max 1 (n div 10))"
  by (simp add: numToDelete_def Let_def)

lemma tick_queue:
  assumes "Unmarshal_List p (input (GetData s ''deadqueue'')) = Some q"
  shows "\<exists>s'. deleteSomeOldCheckpoints p s = Inr s' \<and>
           GetData s' ''deadqueue'' = Some (Marshal_List p (drop (numToDelete (length q)) q))"
proof -
  from deleteLoop_drop [OF numToDelete_le] obtain s1 where
    "deleteLoop p (numToDelete (length q)) s q = Inr (s1, drop (numToDelete (length q)) q)"
    by blast
  with assms show ?thesis
    by (simp add: deleteSomeOldCheckpoints_def SaveData_def GetData_def)
qed

text \<open>
  Claim C5, as amended. For a dead queue of length \<open>len\<close>, one tick removes exactly
  \<open>max 1 (len div 10)\<close> entries (the quotient rounded down) from the head of the queue when
  \<open>len > 0\<close>, and none when \<open>len = 0\<close>.
\<close>

theorem tick_removes_floor_tenth:
  assumes law: "lawful p"
    and q: "Unmarshal_List p (input (GetData s ''deadqueue'')) = Some q"
  shows "\<exists>s'. deleteSomeOldCheckpoints p s = Inr s' \<and>
           Unmarshal_List p (input (GetData s' ''deadqueue'')) =
             Some (drop (if length q = 0 then 0 else max 1 (length q div 10)) q) \<and>
           (if length q = 0 then 0 else max 1 (length q div 10)) \<le> length q"
proof -
  from tick_queue [OF q] obtain s' where
    "deleteSomeOldCheckpoints p s = Inr s'"
    "GetData s' ''deadqueue'' = Some (Marshal_List p (drop (numToDelete (length q)) q))"
    by blast
  then show ?thesis
    using numToDelete_le [of "length q"]
    by (simp add: numToDelete_eq input_def lawfulD [OF law])
qed

lemma queue11_decodes:
  "Unmarshal_List simpleProto (input (GetData queue11 ''deadqueue'')) = Some (replicate 11 idA)"
  by (simp add: queue11_def GetData_def input_def simpleProto_simps dec_enc_queue)

text \<open>Claim C5 as amended, on a queue of eleven entries: ten remain.\<close>

theorem tick_removes_floor_tenth_witness:
  "lawful simpleProto \<and>
   Unmarshal_List simpleProto (input (GetData queue11 ''deadqueue'')) = Some (replicate 11 idA) \<and>
   (\<exists>s'. deleteSomeOldCheckpoints simpleProto queue11 = Inr s' \<and>
         Unmarshal_List simpleProto (input (GetData s' ''deadqueue'')) = Some (replicate 10 idA))"
  using tick_removes_floor_tenth [OF lawful_simpleProto queue11_decodes]
    lawful_simpleProto queue11_decodes
  by simp

text \<open>
  Claim C5 as stated fails on a queue of eleven entries: the tick removes one entry, and
  the ceiling of 11/10 is two.
\<close>

theorem tick_of_eleven_removes_one:
  "Unmarshal_List simpleProto (input (GetData queue11 ''deadqueue'')) = Some (replicate 11 idA) \<and>
   queueAfterTick simpleProto queue11 = Some (replicate 10 idA) \<and>
   specRemoved 11 = 2"
proof -
  from tick_queue [OF queue11_decodes] obtain s' where
    "deleteSomeOldCheckpoints simpleProto queue11 = Inr s'"
    "GetData s' ''deadqueue'' =
       Some (Marshal_List simpleProto (drop (numToDelete (length (replicate 11 idA))) (replicate 11 idA)))"
    by blast
  then have "queueAfterTick simpleProto queue11 = Some (replicate 10 idA)"
    by (simp add: queueAfterTick_def input_def numToDelete_eq simpleProto_simps dec_enc_queue)
  then show ?thesis
    using queue11_decodes by (simp add: specRemoved_def ceilingTenth_def)
qed

text \<open>
  Claim C9, as amended. A tick on a dead queue that holds no entries performs no delete
  and changes no key other than \<^verbatim>\<open>deadqueue\<close>, which it writes with the encoding of the empty
  queue; the values and machines are untouched.
\<close>

theorem tick_on_empty_queue:
  assumes "Unmarshal_List p (input (GetData s ''deadqueue'')) = Some []"
  shows "deleteSomeOldCheckpoints p s =
           Inr (s\<lparr>kv := (kv s)(''deadqueue'' \<mapsto> Marshal_List p []),
                  trace := trace s @ [PutData ''deadqueue'' (Marshal_List p [])]\<rparr>)"
  using assms
  by (simp add: deleteSomeOldCheckpoints_def numToDelete_def SaveData_def)

text \<open>Claim C9 as amended, on the store with one checkpoint and no dead queue yet.\<close>

theorem tick_on_empty_queue_witness:
  "Unmarshal_List simpleProto (input (GetData store1 ''deadqueue'')) = Some [] \<and>
   deleteSomeOldCheckpoints simpleProto store1 =
     Inr (store1\<lparr>kv := (kv store1)(''deadqueue'' \<mapsto> []),
                 trace := trace store1 @ [PutData ''deadqueue'' []]\<rparr>)"
proof -
  have q: "Unmarshal_List simpleProto (input (GetData store1 ''deadqueue'')) = Some []"
    by (simp add: GetData_def store1_lookup input_def simpleProto_simps dec_nil)
  from tick_on_empty_queue [OF q] q show ?thesis
    by (simp add: simpleProto_simps enc_queue_def)
qed

text \<open>
  Claim C9 as stated fails on a new store: the queue holds no entries, and the tick
  creates the \<^verbatim>\<open>deadqueue\<close> key, which was absent.
\<close>

theorem tick_creates_deadqueue_key:
  "GetData emptyStore ''deadqueue'' = None \<and>
   Unmarshal_List simpleProto (input (GetData emptyStore ''deadqueue'')) = Some [] \<and>
   deleteSomeOldCheckpoints simpleProto emptyStore =
     Inr (emptyStore\<lparr>kv := [''deadqueue'' \<mapsto> []], trace := [PutData ''deadqueue'' []]\<rparr>) \<and>
   GetData (emptyStore\<lparr>kv := [''deadqueue'' \<mapsto> []], trace := [PutData ''deadqueue'' []]\<rparr>)
     ''deadqueue'' = Some []"
  by (simp add: deleteSomeOldCheckpoints_def numToDelete_def SaveData_def GetData_def
      emptyStore_def input_def simpleProto_simps dec_nil enc_queue_def)

text \<open>
  Claim C4, as amended. For a dequeued id whose manifest is present and decodes, the
  deletion of the manifest key is the first delete performed for that entry; the
  referenced value hashes, the referenced machine hashes, the contents key and the links
  key are deleted after it, in this order.
\<close>

theorem delete_one_order:
  assumes "GetData s (getManifestKey p I) = Some manifestBytes"
    and "Unmarshal_Manifest p manifestBytes = Some manifestBuf"
  shows "trace (DeleteOneOldCheckpoint p s I) = trace s @
           [DelData (getManifestKey p I)] @
           map DelValue (Values manifestBuf) @ map DelMachine (Machines manifestBuf) @
           [DelData (getContentsKey p I), DelData (getLinksKey p I)]"
  using assms
  by (simp add: DeleteOneOldCheckpoint_def DeleteData_def Let_def fold_DeleteValue
      fold_DeleteCheckpoint)

lemma store1_manifest:
  "GetData store1 (getManifestKey simpleProto idA) = Some (enc_manifest \<lparr>Values = [1], Machines = [2]\<rparr>)"
  "Unmarshal_Manifest simpleProto (enc_manifest \<lparr>Values = [1], Machines = [2]\<rparr>) =
     Some \<lparr>Values = [1], Machines = [2]\<rparr>"
  by (simp_all add: GetData_def store1_lookup ctxA_def simpleProto_simps dec_enc_manifest)

text \<open>Claim C4 as amended, for the checkpoint of the store with one checkpoint.\<close>

theorem delete_one_order_witness:
  "GetData store1 (getManifestKey simpleProto idA) = Some (enc_manifest \<lparr>Values = [1], Machines = [2]\<rparr>) \<and>
   Unmarshal_Manifest simpleProto (enc_manifest \<lparr>Values = [1], Machines = [2]\<rparr>) =
     Some \<lparr>Values = [1], Machines = [2]\<rparr> \<and>
   trace (DeleteOneOldCheckpoint simpleProto store1 idA) = trace store1 @
     [DelData (getManifestKey simpleProto idA), DelValue 1, DelMachine 2,
      DelData (getContentsKey simpleProto idA), DelData (getLinksKey simpleProto idA)]"
  using delete_one_order [OF store1_manifest] store1_manifest by simp

text \<open>
  Claim C4 as stated fails for the checkpoint of the store with one checkpoint: the last
  delete is that of the links key, and the manifest key is deleted before everything else.
\<close>

theorem manifest_deleted_first:
  "GetData store1 (getManifestKey simpleProto idA) \<noteq> None \<and>
   trace (DeleteOneOldCheckpoint simpleProto store1 idA) = trace store1 @
     [DelData (getManifestKey simpleProto idA), DelValue 1, DelMachine 2,
      DelData (getContentsKey simpleProto idA), DelData (getLinksKey simpleProto idA)] \<and>
   last (trace (DeleteOneOldCheckpoint simpleProto store1 idA)) \<noteq>
     DelData (getManifestKey simpleProto idA)"
  using store1_manifest
  by (simp add: DeleteOneOldCheckpoint_def DeleteData_def DeleteValue_def DeleteCheckpoint_def
      Let_def keys_distinct)

section \<open>Restoring\<close>

lemma ids_height:
  "Height idA = 10" "Height idA' = 10" "Height idB = 11" "Height idC = 12"
  by (simp_all add: idA_def idA'_def idB_def idC_def)

text \<open>
  Claim C8. On a store with no metadata (the key absent or empty),
  \<^verbatim>\<open>HasCheckpointedState\<close> returns false and \<^verbatim>\<open>RestoreLatestState\<close> returns the error
  \<^verbatim>\<open>no checkpoints in database\<close> to its caller; the store it leaves is the one it found,
  with no callback effect recorded, whatever the chain client and the callback are.
\<close>

theorem empty_store_restore:
  assumes "len (RestoreMetadata s) = 0"
  shows "HasCheckpointedState s = False \<and>
         RestoreLatestState p client unmarshalFunc s =
           Some (Inr (s, Some (ErrorString ''no checkpoints in database'')))"
  using assms
  by (simp add: HasCheckpointedState_def RestoreLatestState_def
      QueueReorgedCheckpointsForDeletion_def Let_def)

text \<open>Claim C8 on the new store.\<close>

theorem empty_store_restore_witness:
  "len (RestoreMetadata emptyStore) = 0 \<and>
   HasCheckpointedState emptyStore = False \<and>
   RestoreLatestState simpleProto (\<lambda>h. None) (\<lambda>b c. None) emptyStore =
     Some (Inr (emptyStore, Some (ErrorString ''no checkpoints in database'')))"
proof -
  have e: "len (RestoreMetadata emptyStore) = 0"
    by (simp add: emptyStore_simps len_def)
  from empty_store_restore [OF e] e show ?thesis by simp
qed

text \<open>
  Claim C10. \<^verbatim>\<open>RestoreCheckpoint\<close> returns an error only when the metadata fails to decode.
  Absent metadata gives no contents, no context and no error; so does a height outside
  the stored range; and for a height inside the range it returns whatever the contents
  key holds, possibly nothing, with the context and no error, looking at no other record.
\<close>

theorem restore_checkpoint_errors:
  "(RestoreMetadata s = None \<longrightarrow> RestoreCheckpoint p s I = Inr (None, None, None)) \<and>
   (\<forall>raw m oldest newest.
      RestoreMetadata s = Some raw \<and> Unmarshal_Metadata p raw = Some m \<and>
      Oldest m = Some oldest \<and> Newest m = Some newest \<longrightarrow>
        RestoreCheckpoint p s I =
          (if Height I < Height oldest \<or> Height newest < Height I then Inr (None, None, None)
           else Inr (GetData s (getContentsKey p I), Some Rcp, None))) \<and>
   (\<forall>b c e. RestoreCheckpoint p s I = Inr (b, c, Some e) \<longrightarrow>
      (\<exists>raw. RestoreMetadata s = Some raw \<and> Unmarshal_Metadata p raw = None))"
  by (auto simp: RestoreCheckpoint_def Let_def split: option.splits if_splits)

lemma store1_metadata:
  "RestoreMetadata store1 = Some (enc_metadata (firstMetadata idA))"
  "Unmarshal_Metadata simpleProto (enc_metadata (firstMetadata idA)) = Some (firstMetadata idA)"
  "Oldest (firstMetadata idA) = Some idA" "Newest (firstMetadata idA) = Some idA"
  by (simp_all add: RestoreMetadata_def GetData_def store1_lookup simpleProto_simps
      dec_enc_metadata firstMetadata_def)

lemma corruptStore_metadata:
  "RestoreMetadata corruptStore = Some ''garbage''"
  "Unmarshal_Metadata simpleProto ''garbage'' = None"
  by (simp_all add: RestoreMetadata_def GetData_def corruptStore_def simpleProto_simps
      dec_metadata_def)

text \<open>
  Claim C10 on the new store, on the store with one checkpoint (a height out of range,
  and a height in range whose contents key is absent) and on a store with corrupt
  metadata.
\<close>

theorem restore_checkpoint_errors_witness:
  "RestoreMetadata emptyStore = None \<and>
   RestoreCheckpoint simpleProto emptyStore idA = Inr (None, None, None) \<and>
   RestoreMetadata store1 = Some (enc_metadata (firstMetadata idA)) \<and>
   Unmarshal_Metadata simpleProto (enc_metadata (firstMetadata idA)) = Some (firstMetadata idA) \<and>
   Oldest (firstMetadata idA) = Some idA \<and> Newest (firstMetadata idA) = Some idA \<and>
   RestoreCheckpoint simpleProto store1 idB = Inr (None, None, None) \<and>
   RestoreCheckpoint simpleProto store1 idA' = Inr (None, Some Rcp, None) \<and>
   RestoreCheckpoint simpleProto corruptStore idA = Inr (None, None, Some ProtoError) \<and>
   RestoreMetadata corruptStore = Some ''garbage'' \<and>
   Unmarshal_Metadata simpleProto ''garbage'' = None"
proof -
  have 1: "RestoreCheckpoint simpleProto emptyStore idA = Inr (None, None, None)"
    using restore_checkpoint_errors [of emptyStore simpleProto idA]
    by (simp add: emptyStore_simps)
  have 2: "RestoreCheckpoint simpleProto store1 idB = Inr (None, None, None)"
    using restore_checkpoint_errors [of store1 simpleProto idB] store1_metadata
    by (simp add: ids_height)
  have 3: "RestoreCheckpoint simpleProto store1 idA' = Inr (None, Some Rcp, None)"
    using restore_checkpoint_errors [of store1 simpleProto idA'] store1_metadata
    by (simp add: ids_height GetData_def store1_lookup)
  have 4: "RestoreCheckpoint simpleProto corruptStore idA = Inr (None, None, Some ProtoError)"
    using corruptStore_metadata by (simp add: RestoreCheckpoint_def)
  from 1 2 3 4 store1_metadata corruptStore_metadata show ?thesis
    by (simp add: emptyStore_simps)
qed

text \<open>
  Claim C7, as amended. The range check of \<^verbatim>\<open>RestoreCheckpoint\<close> is by height alone: for
  every store with metadata and every requested id, an id with
  \<open>oldest.height \<le> id.height \<le> newest.height\<close> gets the bytes under the contents key of that
  id (possibly none) with the context, and an id below or above the range gets nothing.
  The header hash of the requested id takes no part in the range check, so two ids of the
  same height are rejected together or accepted together; but it is part of the contents
  key: two different ids, also of the same height, read different contents keys.
\<close>

theorem restore_range_by_height:
  assumes law: "lawful p"
  shows "(\<forall>raw m oldest newest.
            RestoreMetadata s = Some raw \<and> Unmarshal_Metadata p raw = Some m \<and>
            Oldest m = Some oldest \<and> Newest m = Some newest \<longrightarrow>
              (Height oldest \<le> Height I \<and> Height I \<le> Height newest \<longrightarrow>
                 RestoreCheckpoint p s I = Inr (GetData s (getContentsKey p I), Some Rcp, None)) \<and>
              (Height I < Height oldest \<or> Height newest < Height I \<longrightarrow>
                 RestoreCheckpoint p s I = Inr (None, None, None)) \<and>
              (Height J = Height I \<longrightarrow>
                 (RestoreCheckpoint p s J = Inr (None, None, None)) =
                 (RestoreCheckpoint p s I = Inr (None, None, None)))) \<and>
         (J \<noteq> I \<longrightarrow> getContentsKey p J \<noteq> getContentsKey p I)"
proof -
  have "getContentsKey p J \<noteq> getContentsKey p I" if "J \<noteq> I"
    using that by (simp add: key_eq_iff [OF law])
  then show ?thesis
    by (auto simp: RestoreCheckpoint_def Let_def)
qed

text \<open>
  Claim C7 as amended, on the store with one checkpoint: \<open>idA\<close> and \<open>idA'\<close> have the same
  height, are both in range and read different contents keys; \<open>idB\<close> is above the range.
\<close>

theorem restore_range_by_height_witness:
  "lawful simpleProto \<and>
   RestoreMetadata store1 = Some (enc_metadata (firstMetadata idA)) \<and>
   Unmarshal_Metadata simpleProto (enc_metadata (firstMetadata idA)) = Some (firstMetadata idA) \<and>
   Oldest (firstMetadata idA) = Some idA \<and> Newest (firstMetadata idA) = Some idA \<and>
   Height idA \<le> Height idA \<and> Height idA' = Height idA \<and> idA' \<noteq> idA \<and>
   RestoreCheckpoint simpleProto store1 idA = Inr (Some ''x'', Some Rcp, None) \<and>
   RestoreCheckpoint simpleProto store1 idA' \<noteq> Inr (None, None, None) \<and>
   RestoreCheckpoint simpleProto store1 idB = Inr (None, None, None) \<and>
   getContentsKey simpleProto idA' \<noteq> getContentsKey simpleProto idA"
proof -
  have md: "RestoreMetadata store1 = Some (enc_metadata (firstMetadata idA)) \<and>
      Unmarshal_Metadata simpleProto (enc_metadata (firstMetadata idA)) = Some (firstMetadata idA) \<and>
      Oldest (firstMetadata idA) = Some idA \<and> Newest (firstMetadata idA) = Some idA"
    using store1_metadata by simp
  note a = restore_range_by_height [OF lawful_simpleProto, where s = store1 and I = idA and J = idA',
      THEN conjunct1, rule_format, OF md]
  note k = restore_range_by_height [OF lawful_simpleProto, where s = store1 and I = idA and J = idA',
      THEN conjunct2, rule_format, OF ids_distinct(8)]
  note b = restore_range_by_height [OF lawful_simpleProto, where s = store1 and I = idB and J = idB,
      THEN conjunct1, rule_format, OF md]
  have "RestoreCheckpoint simpleProto store1 idA = Inr (Some ''x'', Some Rcp, None)"
    using a by (simp add: GetData_def store1_lookup)
  moreover from this have "RestoreCheckpoint simpleProto store1 idA' \<noteq> Inr (None, None, None)"
    using a by (simp add: ids_height)
  moreover have "RestoreCheckpoint simpleProto store1 idB = Inr (None, None, None)"
    using b by (simp add: ids_height)
  ultimately show ?thesis
    using md k lawful_simpleProto by (simp add: ids_height ids_distinct)
qed

text \<open>
  Claim C7 as stated fails on the store with one checkpoint: two ids of height 10 with
  different header hashes are both in range, and the lookup returns the contents for one
  and nothing for the other.
\<close>

theorem same_height_ids_distinguished:
  "Height idA' = Height idA \<and>
   RestoreCheckpoint simpleProto store1 idA = Inr (Some ''x'', Some Rcp, None) \<and>
   RestoreCheckpoint simpleProto store1 idA' = Inr (None, Some Rcp, None)"
  using store1_metadata
  by (simp add: RestoreCheckpoint_def GetData_def store1_lookup ids_height)

section \<open>Trimming and reorg reconciliation\<close>

lemma QueueCheckpointForDeletion_kv:
  "k \<noteq> ''deadqueue'' \<Longrightarrow> kv (QueueCheckpointForDeletion p s I) k = kv s k"
  by (simp add: QueueCheckpointForDeletion_def SaveData_def Let_def split: option.splits)


text \<open>The state the trim loop re-reads in every round.\<close>

lemma trim_never_returns_after_enqueue:
  assumes md: "Unmarshal_Metadata p (input (kv s ''metadata'')) = Some m"
    and old: "Oldest m = Some cand"
    and lk: "Unmarshal_Links p (input (kv s (getLinksKey p cand))) = Some l"
    and nx: "Next l = Some n"
    and lt: "Height n < e"
  shows "QueueOldCheckpointsForDeletion p s e = None"
proof -
  define stuck where "stuck p' s' e' \<longleftrightarrow>
      Unmarshal_Metadata p' (input (kv s' ''metadata'')) = Some m \<and>
      Unmarshal_Links p' (input (kv s' (getLinksKey p' cand))) = Some l \<and>
      Height n < e'" for p' :: proto and s' :: store and e'
  have "\<not> stuck p' s' e'" if "QueueOldCheckpointsForDeletion p' s' e' = Some r" for p' s' e' r
  proof (rule QueueOldCheckpointsForDeletion.raw_induct
      [where P = "\<lambda>p' s' e' r. \<not> stuck p' s' e'", OF _ that])
    fix f p' s' e' r
    assume 1: "\<And>p' s' e' r. f p' s' e' = Some r \<Longrightarrow> \<not> stuck p' s' e'"
      "(case Unmarshal_Metadata p' (input (RestoreMetadata s')) of
        None \<Rightarrow> Some (Inr s')
      | Some metadataBuf \<Rightarrow>
          (case Unmarshal (Oldest metadataBuf) of
             Inl a \<Rightarrow> Some (Inl a)
           | Inr candidateId \<Rightarrow>
               (case Unmarshal_Links p' (input (GetData s' (getLinksKey p' candidateId))) of
                  None \<Rightarrow> Some (Inr s')
                | Some links \<Rightarrow>
                    (case Next links of
                       None \<Rightarrow> Some (Inl Panic)
                     | Some nextBuf \<Rightarrow>
                         (let nextHeight = Height nextBuf
                          in if nextHeight \<ge> e' then Some (Inr s')
                             else
                               (let metadataBytes =
                                      Marshal_Metadata p' (metadataBuf\<lparr>Oldest := Next links\<rparr>)
                                in f p' (QueueCheckpointForDeletion p' s' candidateId) e')))))) = Some r"
    show "\<not> stuck p' s' e'"
    proof
      assume st: "stuck p' s' e'"
      then have a: "Unmarshal_Metadata p' (input (kv s' ''metadata'')) = Some m"
        and b: "Unmarshal_Links p' (input (kv s' (getLinksKey p' cand))) = Some l"
        and c: "Height n < e'"
        by (simp_all add: stuck_def)
      have "stuck p' (QueueCheckpointForDeletion p' s' cand) e'"
        using st by (simp add: stuck_def QueueCheckpointForDeletion_kv keys_distinct)
      moreover have "f p' (QueueCheckpointForDeletion p' s' cand) e' = Some r"
        using 1(2) c
        by (simp add: a b old nx RestoreMetadata_def GetData_def Unmarshal_def UnmarshalBuf_def
            Let_def)
      ultimately show False using 1(1) by blast
    qed
  qed
  moreover have "stuck p s e" using md lk lt by (simp add: stuck_def)
  ultimately show ?thesis by (cases "QueueOldCheckpointsForDeletion p s e") auto
qed

text \<open>
  Claim C6 (the code departs from it). \<^verbatim>\<open>QueueOldCheckpointsForDeletion\<close> is claimed to
  terminate for every store and every earliest kept height, moving \<open>oldest\<close> forward and
  enqueueing each removed id once. On the store with checkpoints at heights 10, 11 and 12
  and the earliest kept height 12 it does not return: the new metadata is marshalled and
  never saved, so every round reads the same \<open>oldest\<close>, finds its successor at height 11
  below 12, and enqueues it again.
\<close>

theorem trim_runs_forever:
  "QueueOldCheckpointsForDeletion simpleProto store3 12 = None"
proof -
  have md: "Unmarshal_Metadata simpleProto (input (kv store3 ''metadata'')) =
      Some \<lparr>FormatVersion = 1, Oldest = Some idA, Newest = Some idC\<rparr>"
    by (simp add: store3_facts input_def simpleProto_simps dec_enc_metadata)
  have lk: "Unmarshal_Links simpleProto (input (kv store3 (getLinksKey simpleProto idA))) =
      Some \<lparr>Prev = Some idA, Next = Some idB\<rparr>"
    by (simp add: store3_facts input_def simpleProto_simps dec_enc_links)
  have nx: "Next \<lparr>Prev = Some idA, Next = Some idB\<rparr> = Some idB"
    and old: "Oldest \<lparr>FormatVersion = 1, Oldest = Some idA, Newest = Some idC\<rparr> = Some idA"
    and lt: "Height idB < 12"
    by (simp_all add: ids_height)
  show ?thesis
    by (rule trim_never_returns_after_enqueue [OF md old lk nx lt])
qed

text \<open>When the trim loop returns, it has enqueued nothing.\<close>

lemma trim_returns_unchanged:
  "QueueOldCheckpointsForDeletion p s e = Some r \<Longrightarrow> r = Inr s \<or> r = Inl Panic"
proof (cases "Unmarshal_Metadata p (input (kv s ''metadata''))")
  case None
  assume "QueueOldCheckpointsForDeletion p s e = Some r"
  with None show ?thesis
    by (subst (asm) QueueOldCheckpointsForDeletion.simps)
      (simp add: RestoreMetadata_def GetData_def)
next
  case (Some m)
  assume r: "QueueOldCheckpointsForDeletion p s e = Some r"
  show ?thesis
  proof (cases "Oldest m")
    case None
    with Some r show ?thesis
      by (subst (asm) QueueOldCheckpointsForDeletion.simps)
        (simp add: RestoreMetadata_def GetData_def Unmarshal_def)
  next
    case old: (Some cand)
    show ?thesis
    proof (cases "Unmarshal_Links p (input (kv s (getLinksKey p cand)))")
      case None
      with Some old r show ?thesis
        by (subst (asm) QueueOldCheckpointsForDeletion.simps)
          (simp add: RestoreMetadata_def GetData_def Unmarshal_def UnmarshalBuf_def)
    next
      case lk: (Some l)
      show ?thesis
      proof (cases "Next l")
        case None
        with Some old lk r show ?thesis
          by (subst (asm) QueueOldCheckpointsForDeletion.simps)
            (simp add: RestoreMetadata_def GetData_def Unmarshal_def UnmarshalBuf_def)
      next
        case nx: (Some n)
        show ?thesis
        proof (cases "Height n < e")
          case True
          from trim_never_returns_after_enqueue [OF Some old lk nx True] r show ?thesis by simp
        next
          case False
          with Some old lk nx r show ?thesis
            by (subst (asm) QueueOldCheckpointsForDeletion.simps)
              (simp add: RestoreMetadata_def GetData_def Unmarshal_def UnmarshalBuf_def)
        qed
      qed
    qed
  qed
qed
















end
